theory Spec2Isabelle
  imports Main "HOL-Library.Signed_Division"
begin

section \<open>Constants and strings of Proyecto1.c\<close>

definition MAXLINE :: nat where
  "MAXLINE = 100"

definition MAXARGS :: nat where
  "MAXARGS = 10"

definition HISTORY_SIZE :: nat where
  "HISTORY_SIZE = 10"

text \<open>The largest value of a C \<^verbatim>\<open>int\<close> (32 bits, two's complement).\<close>

definition INT_MAX :: int where
  "INT_MAX = 2147483647"

text \<open>
  A C \<^verbatim>\<open>int\<close> result, reduced to 32 bits two's complement (what the RISC-V target of
  xv6 computes where C leaves signed overflow undefined).
\<close>

definition int32 :: "int \<Rightarrow> int" where
  "int32 x = (x + 2 ^ 31) mod 2 ^ 32 - 2 ^ 31"

text \<open>
  \<^verbatim>\<open>START_TIME\<close> is 0 unless the build defines it; the other two are fixed:
  \<^verbatim>\<open>TIMEZONE_OFFSET (-5 * 3600)\<close>, \<^verbatim>\<open>TICKS_PER_SECOND 100\<close>.
\<close>

definition START_TIME :: int where
  "START_TIME = 0"

definition TIMEZONE_OFFSET :: int where
  "TIMEZONE_OFFSET = - 5 * 3600"

definition TICKS_PER_SECOND :: int where
  "TICKS_PER_SECOND = 100"

text \<open>Characters the code tests for, and the ANSI colour sequences (\<^verbatim>\<open>\033\<close> is ESC).\<close>

definition NUL :: char where
  "NUL = CHR 0x00"

definition newline :: char where
  "newline = CHR 0x0A"

definition space :: char where
  "space = CHR '' ''"

definition nl :: string where
  "nl = [newline]"

definition ESC :: string where
  "ESC = [CHR 0x1B]"

definition COLOR_RED :: string where
  "COLOR_RED = ESC @ ''[31m''"

definition COLOR_GREEN :: string where
  "COLOR_GREEN = ESC @ ''[32m''"

definition COLOR_YELLOW :: string where
  "COLOR_YELLOW = ESC @ ''[33m''"

definition COLOR_CYAN :: string where
  "COLOR_CYAN = ESC @ ''[36m''"

definition COLOR_WHITE :: string where
  "COLOR_WHITE = ESC @ ''[37m''"

definition COLOR_RESET :: string where
  "COLOR_RESET = ESC @ ''[0m''"

section \<open>The process as the shell sees it\<close>

text \<open>
  One \<^verbatim>\<open>printf\<close> call is one event, holding the pieces of its format in order:
  literal text and \<^verbatim>\<open>%s\<close> arguments as \<open>OStr\<close>, a \<^verbatim>\<open>%d\<close> argument as \<open>OInt\<close>.
\<close>

datatype out = OStr string | OInt int

text \<open>
  What a descriptor refers to: a file that was open when the shell started
  (numbered), or an end of the pipe created by the \<open>n\<close>-th \<^verbatim>\<open>pipe\<close> call.
\<close>

datatype openfile = Inherited nat | PipeRead nat | PipeWrite nat

text \<open>
  The system calls and library calls with an effect outside the process, in program order.
  \<open>EvRead None\<close> is a \<^verbatim>\<open>read(0, &c, 1)\<close> that returned less than 1;
  \<open>EvExec\<close> holds \<^verbatim>\<open>argv[0]\<close> (\<open>None\<close> for the null pointer of an empty vector)
  and the vector; \<open>EvWait\<close> is \<^verbatim>\<open>wait(0)\<close>, whose null argument asks for no exit status.
\<close>

datatype event =
    EvPrintf "out list"
  | EvRead "char option"
  | EvUptime int
  | EvFork int
  | EvPipe "(nat \<times> nat) option"
  | EvClose nat
  | EvDup nat "nat option"
  | EvExec "string option" "string list"
  | EvExit int
  | EvWait

text \<open>
  The state of one process running the program: what is left of standard input, the two
  globals \<^verbatim>\<open>history\<close> (its ten slots as C strings) and \<^verbatim>\<open>history_count\<close>, the descriptor
  table, how many pipes and how many \<^verbatim>\<open>fork\<close>/\<^verbatim>\<open>uptime\<close> answers it has had,
  and the events so far. A child starts as a copy of its parent: its events begin with
  those of the parent up to the \<^verbatim>\<open>fork\<close>.
\<close>

record proc =
  inp :: "char list"
  history :: "string list"
  history_count :: int
  fds :: "openfile option list"
  npipes :: nat
  ncalls :: nat
  trace :: "event list"

text \<open>
  What the program cannot decide: the value each \<^verbatim>\<open>fork\<close> returns in this process
  (0 in the child, the child's pid in the parent, -1 on failure), whether \<^verbatim>\<open>exec\<close> of a
  program name replaces the image, and the tick count \<^verbatim>\<open>uptime\<close> returns; the first and
  the last by the number of such calls made before.
\<close>

record env =
  fork_result :: "nat \<Rightarrow> int"
  exec_ok :: "string option \<Rightarrow> bool"
  uptime_result :: "nat \<Rightarrow> int"

text \<open>
  Undefined behaviour of the C program, as a value: a \<^verbatim>\<open>strcpy\<close> that leaves the 100
  bytes of its history slot (or goes to a negative slot index), a store past the end of an
  argument array, and reading \<^verbatim>\<open>p[0]\<close>, \<^verbatim>\<open>p[1]\<close> that a failed \<^verbatim>\<open>pipe\<close> never wrote.
\<close>

datatype fault = HistoryOverflow | ArgvOverflow | PipeUninitialised

text \<open>
  How a stretch of the program ends in this process: it goes on, it calls \<^verbatim>\<open>exit\<close>,
  \<^verbatim>\<open>exec\<close> has replaced its image, or its behaviour is undefined.
\<close>

datatype outcome =
    Continue proc
  | Exited int proc
  | Replaced "string option" "string list" proc
  | Fault fault proc

definition initial :: "char list \<Rightarrow> openfile option list \<Rightarrow> proc" where
  "initial input table =
     \<lparr>inp = input, history = replicate HISTORY_SIZE [], history_count = 0,
      fds = table, npipes = 0, ncalls = 0, trace = []\<rparr>"

definition printf :: "out list \<Rightarrow> proc \<Rightarrow> proc" where
  "printf items st = st\<lparr>trace := trace st @ [EvPrintf items]\<rparr>"

section \<open>The history buffer\<close>

text \<open>
  \<^verbatim>\<open>add_history\<close>: nothing for the empty string; otherwise \<^verbatim>\<open>strcpy\<close> into slot
  \<^verbatim>\<open>history_count % HISTORY_SIZE\<close> (C's \<^verbatim>\<open>%\<close> takes the sign of the counter; the
  copy and its terminator need \<open>length cmd + 1\<close> of the slot's \<open>MAXLINE\<close> bytes), then
  \<^verbatim>\<open>history_count++\<close>, which wraps around at \<open>INT_MAX\<close>.
\<close>

definition add_history :: "string \<Rightarrow> proc \<Rightarrow> fault + proc" where
  "add_history cmd st =
     (if cmd = [] then Inr st
      else
        let index = history_count st smod int HISTORY_SIZE in
        if index < 0 \<or> MAXLINE \<le> length cmd then Inl HistoryOverflow
        else Inr (st\<lparr>history := (history st)[nat index := cmd],
                      history_count := int32 (history_count st + 1)\<rparr>))"

text \<open>The line \<^verbatim>\<open>printf("%d  %s\n", i + 1, history[index])\<close> of \<^verbatim>\<open>show_history\<close>.\<close>

definition history_line :: "int \<Rightarrow> string \<Rightarrow> event" where
  "history_line i entry = EvPrintf [OInt (i + 1), OStr ''  '', OStr entry, OStr nl]"

text \<open>
  The \<^verbatim>\<open>for\<close> loop of \<^verbatim>\<open>show_history\<close>, from \<open>i\<close> on; \<open>i\<close> is never negative
  there, and \<open>i + 1\<close> is at most \<^verbatim>\<open>history_count\<close>.
\<close>

function show_history_loop :: "int \<Rightarrow> proc \<Rightarrow> proc" where
  "show_history_loop i st =
     (if i < history_count st then
        let index = i smod int HISTORY_SIZE in
        show_history_loop (i + 1)
          (st\<lparr>trace := trace st @ [history_line i (history st ! nat index)]\<rparr>)
      else st)"
  by pat_completeness auto
termination
  by (relation "measure (\<lambda>(i, st). nat (history_count st - i))") auto

declare show_history_loop.simps [simp del]

text \<open>
  \<^verbatim>\<open>show_history\<close>: the heading, the entries from
  \<^verbatim>\<open>start = history_count - HISTORY_SIZE\<close> (0 when that is negative) up to
  \<^verbatim>\<open>history_count\<close>, and an empty line.
\<close>

definition show_history :: "proc \<Rightarrow> proc" where
  "show_history st =
     (let st1 = printf [OStr (COLOR_CYAN @ nl @ ''Ultimos comandos:'' @ nl @ COLOR_RESET)] st;
          start0 = int32 (history_count st1 - int HISTORY_SIZE);
          start = (if start0 < 0 then 0 else start0);
          st2 = show_history_loop start st1
      in printf [OStr nl] st2)"

text \<open>Recording a sequence of lines, one \<^verbatim>\<open>add_history\<close> call each, in order.\<close>

fun records :: "string list \<Rightarrow> proc \<Rightarrow> fault + proc" where
  "records [] st = Inr st"
| "records (l # ls) st =
     (case add_history l st of Inl f \<Rightarrow> Inl f | Inr st' \<Rightarrow> records ls st')"

text \<open>The lines that count: the non-empty ones, numbered from 1 in the order entered.\<close>

definition entered :: "string list \<Rightarrow> string list" where
  "entered ls = filter (\<lambda>l. l \<noteq> []) ls"


section \<open>Reading a line\<close>

text \<open>
  \<^verbatim>\<open>read(0, &c, 1)\<close>: the next byte of standard input, or nothing once the input is
  used up (the call then returns less than 1).
\<close>

definition sys_read :: "proc \<Rightarrow> char option \<times> proc" where
  "sys_read st =
     (case inp st of
        [] \<Rightarrow> (None, st\<lparr>trace := trace st @ [EvRead None]\<rparr>)
      | c # cs \<Rightarrow> (Some c, st\<lparr>inp := cs, trace := trace st @ [EvRead (Some c)]\<rparr>))"

text \<open>
  The \<^verbatim>\<open>while (i < max - 1)\<close> loop of \<^verbatim>\<open>readline\<close> (\<open>lim\<close> is its \<^verbatim>\<open>max\<close>); \<open>buf\<close> holds
  \<^verbatim>\<open>buf[0..i-1]\<close>. The result is \<open>i\<close>, the bytes stored before the terminator that
  \<^verbatim>\<open>buf[i] = '\0'\<close> writes, and the state.
\<close>

function readline_loop :: "nat \<Rightarrow> nat \<Rightarrow> char list \<Rightarrow> proc \<Rightarrow> nat \<times> char list \<times> proc" where
  "readline_loop lim i buf st =
     (if i < lim - 1 then
        (case sys_read st of
           (None, st') \<Rightarrow> (i, buf, st')
         | (Some c, st') \<Rightarrow>
             if c = newline then (i, buf, st')
             else readline_loop lim (i + 1) (buf @ [c]) st')
      else (i, buf, st))"
  by pat_completeness auto
termination
  by (relation "measure (\<lambda>(lim, i, buf, st). lim - 1 - i)") auto

declare readline_loop.simps [simp del]

definition readline :: "nat \<Rightarrow> proc \<Rightarrow> nat \<times> char list \<times> proc" where
  "readline lim st = readline_loop lim 0 [] st"

text \<open>The C string that starts at \<^verbatim>\<open>buf\<close>: the bytes before the first NUL.\<close>

definition cstr :: "char list \<Rightarrow> string" where
  "cstr buf = takeWhile (\<lambda>c. c \<noteq> NUL) buf"

section \<open>Strings and the tokenizer\<close>

text \<open>\<^verbatim>\<open>starts_with\<close>: at the end of \<open>str\<close> its terminator differs from the prefix's byte.\<close>

fun starts_with :: "string \<Rightarrow> string \<Rightarrow> bool" where
  "starts_with str [] = True"
| "starts_with [] (p # ps) = False"
| "starts_with (c # cs) (p # ps) = (if c \<noteq> p then False else starts_with cs ps)"

text \<open>\<^verbatim>\<open>while (*buf == ' ') *buf++ = '\0';\<close> (and the same scan without the store).\<close>

fun skip_spaces :: "string \<Rightarrow> string" where
  "skip_spaces [] = []"
| "skip_spaces (c # cs) = (if c = space then skip_spaces cs else c # cs)"

text \<open>\<^verbatim>\<open>while (*buf != ' ' && *buf != '\0') buf++;\<close>\<close>

fun skip_word :: "string \<Rightarrow> string" where
  "skip_word [] = []"
| "skip_word (c # cs) = (if c \<noteq> space then skip_word cs else c # cs)"

text \<open>
  The C string an argument pointer stored at \<open>buf\<close> ends up naming: the bytes up to
  the end of the line or up to the next space, which the following round of the outer
  loop overwrites with a terminator.
\<close>

fun this_word :: "string \<Rightarrow> string" where
  "this_word [] = []"
| "this_word (c # cs) = (if c \<noteq> space then c # this_word cs else [])"

text \<open>
  The outer loop of \<^verbatim>\<open>parse\<close>; \<open>argv\<close> holds \<^verbatim>\<open>argv[0..i-1]\<close>, and \<open>cap\<close> is the
  number of slots of the caller's array: a store at an index from \<open>cap\<close> on is out of
  its bounds.
\<close>

function parse_loop :: "nat \<Rightarrow> string \<Rightarrow> string list \<Rightarrow> fault + string list" where
  "parse_loop cap buf argv =
     (if buf = [] then Inr argv
      else
        let buf1 = skip_spaces buf in
        if buf1 = [] then Inr argv
        else if cap \<le> length argv then Inl ArgvOverflow
        else parse_loop cap (skip_word buf1) (argv @ [this_word buf1]))"
  by pat_completeness auto
termination
proof (relation "measure (\<lambda>(cap, buf, argv). length buf)")
  show "wf (measure (\<lambda>(cap, buf, argv). length buf))"
    by simp
next
  fix cap :: nat and buf :: string and argv :: "string list" and buf1 :: string
  assume ne: "buf \<noteq> []" and b1: "buf1 = skip_spaces buf" and ne1: "buf1 \<noteq> []"
  have spaces: "length (skip_spaces s) \<le> length s" for s
    by (induction s) auto
  have word: "length (skip_word s) \<le> length s" for s
    by (induction s) auto
  have first: "hd (skip_spaces s) \<noteq> space" if "skip_spaces s \<noteq> []" for s
    using that by (induction s) (auto split: if_splits)
  from ne1 obtain c cs where cs: "buf1 = c # cs"
    by (cases buf1) auto
  with first [of buf] b1 have "c \<noteq> space"
    by (metis list.sel(1) ne1)
  with cs have "length (skip_word buf1) \<le> length cs"
    using word [of cs] by simp
  also have "\<dots> < length buf1"
    using cs by simp
  also have "\<dots> \<le> length buf"
    using spaces [of buf] b1 by simp
  finally show "((cap, skip_word buf1, argv @ [this_word buf1]), (cap, buf, argv))
      \<in> measure (\<lambda>(cap, buf, argv). length buf)"
    by simp
qed

declare parse_loop.simps [simp del]

text \<open>\<^verbatim>\<open>parse\<close>: the loop from \<^verbatim>\<open>i = 0\<close>, then the sentinel \<^verbatim>\<open>argv[i] = 0\<close>.\<close>

definition parse :: "nat \<Rightarrow> string \<Rightarrow> fault + string list" where
  "parse cap buf =
     (case parse_loop cap buf [] of
        Inl f \<Rightarrow> Inl f
      | Inr argv \<Rightarrow> if cap \<le> length argv then Inl ArgvOverflow else Inr argv)"

text \<open>
  The pointer \<^verbatim>\<open>argv[i]\<close> after \<^verbatim>\<open>parse\<close>: an argument, or null at the sentinel.
  (The slots after the sentinel are never read by the program.)
\<close>

definition argp :: "string list \<Rightarrow> nat \<Rightarrow> string option" where
  "argp argv i = (if i < length argv then Some (argv ! i) else None)"

text \<open>The search for the first \<^verbatim>\<open>'|'\<close> in \<^verbatim>\<open>main\<close>: its index, if there is one.\<close>

fun find_pipe :: "string \<Rightarrow> nat option" where
  "find_pipe [] = None"
| "find_pipe (c # cs) = (if c = CHR ''|'' then Some 0 else map_option Suc (find_pipe cs))"


section \<open>System calls\<close>

text \<open>
  The descriptor table is this process's own. The kernel hands out the lowest free
  descriptor (\<^verbatim>\<open>fdalloc\<close> of xv6, as POSIX requires): this is what makes
  \<^verbatim>\<open>close(1); dup(p[1])\<close> a redirection of standard output.
\<close>

fun first_free :: "openfile option list \<Rightarrow> nat option" where
  "first_free [] = None"
| "first_free (None # t) = Some 0"
| "first_free (Some f # t) = map_option Suc (first_free t)"

definition fdalloc :: "openfile \<Rightarrow> openfile option list \<Rightarrow> (nat \<times> openfile option list) option" where
  "fdalloc f t = (case first_free t of None \<Rightarrow> None | Some fd \<Rightarrow> Some (fd, t[fd := Some f]))"

text \<open>
  \<^verbatim>\<open>pipe(p)\<close>: two descriptors for the two ends of a new pipe, or failure (nothing is
  allocated, \<^verbatim>\<open>p\<close> is not written) when the table has no two free slots.
\<close>

definition sys_pipe :: "proc \<Rightarrow> (nat \<times> nat) option \<times> proc" where
  "sys_pipe st =
     (case fdalloc (PipeRead (npipes st)) (fds st) of
        None \<Rightarrow> (None, st\<lparr>trace := trace st @ [EvPipe None]\<rparr>)
      | Some (r, t1) \<Rightarrow>
          (case fdalloc (PipeWrite (npipes st)) t1 of
             None \<Rightarrow> (None, st\<lparr>trace := trace st @ [EvPipe None]\<rparr>)
           | Some (w, t2) \<Rightarrow>
               (Some (r, w),
                st\<lparr>fds := t2, npipes := npipes st + 1,
                   trace := trace st @ [EvPipe (Some (r, w))]\<rparr>)))"

definition sys_close :: "nat \<Rightarrow> proc \<Rightarrow> proc" where
  "sys_close fd st = st\<lparr>fds := (fds st)[fd := None], trace := trace st @ [EvClose fd]\<rparr>"

text \<open>\<^verbatim>\<open>dup(fd)\<close>; the program ignores the descriptor it returns.\<close>

definition sys_dup :: "nat \<Rightarrow> proc \<Rightarrow> proc" where
  "sys_dup fd st =
     (case (if fd < length (fds st) then fds st ! fd else None) of
        None \<Rightarrow> st\<lparr>trace := trace st @ [EvDup fd None]\<rparr>
      | Some f \<Rightarrow>
          (case fdalloc f (fds st) of
             None \<Rightarrow> st\<lparr>trace := trace st @ [EvDup fd None]\<rparr>
           | Some (fd', t) \<Rightarrow> st\<lparr>fds := t, trace := trace st @ [EvDup fd (Some fd')]\<rparr>))"

definition sys_fork :: "env \<Rightarrow> proc \<Rightarrow> int \<times> proc" where
  "sys_fork e st =
     (let r = fork_result e (ncalls st)
      in (r, st\<lparr>ncalls := ncalls st + 1, trace := trace st @ [EvFork r]\<rparr>))"

definition sys_uptime :: "env \<Rightarrow> proc \<Rightarrow> int \<times> proc" where
  "sys_uptime e st =
     (let t = uptime_result e (ncalls st)
      in (t, st\<lparr>ncalls := ncalls st + 1, trace := trace st @ [EvUptime t]\<rparr>))"

definition sys_wait :: "proc \<Rightarrow> proc" where
  "sys_wait st = st\<lparr>trace := trace st @ [EvWait]\<rparr>"

text \<open>
  \<^verbatim>\<open>exec(argv[0], argv)\<close>: the image is replaced, or the call returns (-1) and the
  process goes on.
\<close>

definition sys_exec :: "env \<Rightarrow> string list \<Rightarrow> proc \<Rightarrow> outcome" where
  "sys_exec e argv st =
     (let path = argp argv 0;
          st1 = st\<lparr>trace := trace st @ [EvExec path argv]\<rparr>
      in if exec_ok e path then Replaced path argv st1 else Continue st1)"

definition sys_exit :: "int \<Rightarrow> proc \<Rightarrow> outcome" where
  "sys_exit status st = Exited status (st\<lparr>trace := trace st @ [EvExit status]\<rparr>)"

section \<open>The launchers\<close>

definition run_cmd :: "env \<Rightarrow> string list \<Rightarrow> proc \<Rightarrow> outcome" where
  "run_cmd e argv st =
     (let (pid, st1) = sys_fork e st in
      if pid = 0 then
        (case sys_exec e argv st1 of
           Continue st2 \<Rightarrow>
             sys_exit 1
               (printf [OStr (COLOR_RED @ ''Error ejecutando comando'' @ nl @ COLOR_RESET)] st2)
         | r \<Rightarrow> r)
      else Continue (sys_wait st1))"

text \<open>
  \<^verbatim>\<open>run_pipe\<close>. The program does not look at what \<^verbatim>\<open>pipe\<close> returns; after a failed
  \<^verbatim>\<open>pipe\<close> the first use of \<^verbatim>\<open>p[0]\<close> or \<^verbatim>\<open>p[1]\<close> reads a variable never written.
\<close>

definition run_pipe :: "env \<Rightarrow> string list \<Rightarrow> string list \<Rightarrow> proc \<Rightarrow> outcome" where
  "run_pipe e left right st =
     (let (p, st0) = sys_pipe st;
          (pid1, st1) = sys_fork e st0 in
      if pid1 = 0 then
        (let st2 = sys_close 1 st1 in
         case p of
           None \<Rightarrow> Fault PipeUninitialised st2
         | Some (p0, p1) \<Rightarrow>
             (case sys_exec e left (sys_close p1 (sys_close p0 (sys_dup p1 st2))) of
                Continue st3 \<Rightarrow> sys_exit 1 st3
              | r \<Rightarrow> r))
      else
        let (pid2, st2) = sys_fork e st1 in
        if pid2 = 0 then
          (let st3 = sys_close 0 st2 in
           case p of
             None \<Rightarrow> Fault PipeUninitialised st3
           | Some (p0, p1) \<Rightarrow>
               (case sys_exec e right (sys_close p0 (sys_close p1 (sys_dup p0 st3))) of
                  Continue st4 \<Rightarrow> sys_exit 1 st4
                | r \<Rightarrow> r))
        else
          (case p of
             None \<Rightarrow> Fault PipeUninitialised st2
           | Some (p0, p1) \<Rightarrow> Continue (sys_wait (sys_wait (sys_close p1 (sys_close p0 st2))))))"

section \<open>The builtins\<close>

definition clear_screen :: "proc \<Rightarrow> proc" where
  "clear_screen st = printf [OStr (ESC @ ''[2J'' @ ESC @ ''[H'')] st"

definition print_two_digits :: "int \<Rightarrow> proc \<Rightarrow> proc" where
  "print_two_digits n st = (if n < 10 then printf [OStr ''0'', OInt n] st else printf [OInt n] st)"

definition print_banner :: "proc \<Rightarrow> proc" where
  "print_banner st =
     printf [OStr (''Escribe 'ayuda' para ver comandos'' @ nl @ nl)]
       (printf [OStr (COLOR_CYAN @ ''BIENVENIDO EAFITOS'' @ nl @ COLOR_RESET)] st)"

text \<open>The eight \<^verbatim>\<open>printf\<close> calls of the \<^verbatim>\<open>ayuda\<close> builtin.\<close>

definition ayuda :: "proc \<Rightarrow> proc" where
  "ayuda st =
     foldl (\<lambda>s text. printf [OStr text] s) st
       [COLOR_CYAN @ nl @ ''Comandos disponibles'' @ nl @ COLOR_RESET,
        ''listar'' @ nl, ''leer <archivo>'' @ nl, ''calc n1 op n2'' @ nl, ''tiempo'' @ nl,
        ''historial'' @ nl, ''limpiar'' @ nl, ''salir'' @ nl @ nl]"

text \<open>
  Modelled from the spec: \<^verbatim>\<open>atoi\<close> is the xv6 user library's, declared in
  \<^verbatim>\<open>user/user.h\<close> and not part of the source file: permissive integer parsing, the value
  of the leading decimal digits, so that text that does not start with a digit parses as 0.
\<close>

fun atoi_loop :: "int \<Rightarrow> string \<Rightarrow> int" where
  "atoi_loop n [] = n"
| "atoi_loop n (c # cs) =
     (if 48 \<le> (of_char c :: nat) \<and> (of_char c :: nat) \<le> 57
      then atoi_loop (int32 (n * 10 + int (of_char c) - 48)) cs
      else n)"

definition atoi :: "string \<Rightarrow> int" where
  "atoi s = atoi_loop 0 s"

text \<open>
  The calculator, on the text after \<^verbatim>\<open>"calc "\<close>: \<^verbatim>\<open>parse(buf + 5, args)\<close> with
  \<^verbatim>\<open>char *args[4]\<close>. \<^verbatim>\<open>args[1][0]\<close> is the first byte of the second argument (its
  terminator if it were empty). C's \<^verbatim>\<open>/\<close> truncates towards zero.
\<close>

definition calc :: "string \<Rightarrow> proc \<Rightarrow> outcome" where
  "calc rest st =
     (case parse 4 rest of
        Inl f \<Rightarrow> Fault f st
      | Inr args \<Rightarrow>
          if argp args 0 \<noteq> None \<and> argp args 1 \<noteq> None \<and> argp args 2 \<noteq> None then
            let a = atoi (args ! 0);
                b = atoi (args ! 2);
                op = (case args ! 1 of [] \<Rightarrow> NUL | c # cs \<Rightarrow> c);
                st1 = printf [OStr (COLOR_YELLOW @ ''Resultado: '' @ COLOR_RESET)] st
            in Continue
                 (if op = CHR ''+'' then printf [OInt (int32 (a + b)), OStr nl] st1
                  else if op = CHR ''-'' then printf [OInt (int32 (a - b)), OStr nl] st1
                  else if op = CHR ''*'' then printf [OInt (int32 (a * b)), OStr nl] st1
                  else if op = CHR ''/'' \<and> b \<noteq> 0 then printf [OInt (int32 (a sdiv b)), OStr nl] st1
                  else printf [OStr (COLOR_RED @ ''Operacion invalida'' @ nl @ COLOR_RESET)] st1)
          else Continue (printf [OStr (COLOR_RED @ ''Uso: calc n1 op n2'' @ nl @ COLOR_RESET)] st))"

text \<open>
  The \<^verbatim>\<open>tiempo\<close> builtin. C's \<^verbatim>\<open>/\<close> and \<^verbatim>\<open>%\<close> truncate towards zero; for a tick
  count that fits an \<^verbatim>\<open>int\<close> no step overflows.
\<close>

definition tiempo :: "env \<Rightarrow> proc \<Rightarrow> proc" where
  "tiempo e st =
     (let (ticks, st1) = sys_uptime e st;
          segundos_sistema = ticks sdiv TICKS_PER_SECOND;
          tiempo_total = START_TIME + segundos_sistema + TIMEZONE_OFFSET;
          horas0 = (tiempo_total sdiv 3600) smod 24;
          minutos = (tiempo_total sdiv 60) smod 60;
          seg = tiempo_total smod 60;
          horas = (if horas0 < 0 then horas0 + 24 else horas0);
          st2 = printf [OStr (COLOR_YELLOW @ ''Hora actual: '' @ COLOR_RESET)] st1;
          st3 = printf [OStr '':''] (print_two_digits horas st2);
          st4 = printf [OStr '':''] (print_two_digits minutos st3)
      in printf [OStr nl] (print_two_digits seg st4))"


section \<open>The shell loop\<close>

text \<open>
  The end of the loop body, for a line that no builtin has consumed: the two aliases
  (\<^verbatim>\<open>strcpy(buf, "ls")\<close>, and \<^verbatim>\<open>"cat "\<close> followed by what comes after \<^verbatim>\<open>"leer "\<close>),
  the search for the first \<^verbatim>\<open>'|'\<close>, and one of the launchers. The three argument
  arrays have \<open>MAXARGS\<close> slots each.
\<close>

definition execute :: "env \<Rightarrow> string \<Rightarrow> proc \<Rightarrow> outcome" where
  "execute e buf0 st =
     (let buf1 = (if buf0 = ''listar'' then ''ls'' else buf0);
          buf = (if starts_with buf1 ''leer '' then ''cat '' @ drop 5 buf1 else buf1)
      in case find_pipe buf of
           Some i \<Rightarrow>
             (let right = skip_spaces (drop (i + 1) buf) in
              case parse MAXARGS (take i buf) of
                Inl f \<Rightarrow> Fault f st
              | Inr left_args \<Rightarrow>
                  (case parse MAXARGS right of
                     Inl f \<Rightarrow> Fault f st
                   | Inr right_args \<Rightarrow> run_pipe e left_args right_args st))
         | None \<Rightarrow>
             (case parse MAXARGS buf of
                Inl f \<Rightarrow> Fault f st
              | Inr argv \<Rightarrow> run_cmd e argv st))"

text \<open>The loop body after \<^verbatim>\<open>add_history(buf)\<close>: the builtins in the order of the source.\<close>

definition dispatch :: "env \<Rightarrow> string \<Rightarrow> proc \<Rightarrow> outcome" where
  "dispatch e buf st =
     (if buf = ''salir'' then
        sys_exit 0 (printf [OStr (COLOR_WHITE @ nl @ ''Cerrando eafitos...'' @ nl @ COLOR_RESET)] st)
      else if buf = ''limpiar'' then Continue (clear_screen st)
      else if buf = ''historial'' then Continue (show_history st)
      else if buf = ''ayuda'' then Continue (ayuda st)
      else if starts_with buf ''calc '' then calc (drop 5 buf) st
      else if buf = ''tiempo'' then Continue (tiempo e st)
      else execute e buf st)"

text \<open>The prompt; the sign after \<^verbatim>\<open>Proyecto1\<close> is three bytes of UTF-8.\<close>

definition prompt :: string where
  "prompt = COLOR_GREEN @ ''Proyecto1 '' @ [CHR 0xE2, CHR 0x9D, CHR 0xAF] @ '' '' @ COLOR_RESET"

text \<open>
  One round of \<^verbatim>\<open>while (1)\<close> in \<^verbatim>\<open>main\<close>: \<open>Continue\<close> stands for reaching
  \<^verbatim>\<open>continue\<close> or the end of the body. \<^verbatim>\<open>buf[0] == 0\<close> holds when the C string in
  \<^verbatim>\<open>buf\<close> is empty (a line that starts with a NUL byte).
\<close>

definition iteration :: "env \<Rightarrow> proc \<Rightarrow> outcome" where
  "iteration e st =
     (let st1 = printf [OStr prompt] st;
          (n, buf, st2) = readline MAXLINE st1
      in if n \<le> 0 then Continue st2
         else if cstr buf = [] then Continue st2
         else
           (case add_history (cstr buf) st2 of
              Inl f \<Rightarrow> Fault f st2
            | Inr st3 \<Rightarrow> dispatch e (cstr buf) st3))"

text \<open>
  The loop itself. It has no exit of its own: the value is \<open>None\<close> when the process
  stays in the loop for ever, and otherwise how it left (\<^verbatim>\<open>exit\<close>, a replaced image in
  a child, or undefined behaviour).
\<close>

partial_function (option) main_loop :: "env \<Rightarrow> proc \<Rightarrow> outcome option" where
  "main_loop e st =
     (case iteration e st of
        Continue st' \<Rightarrow> main_loop e st'
      | Exited status st' \<Rightarrow> Some (Exited status st')
      | Replaced path argv st' \<Rightarrow> Some (Replaced path argv st')
      | Fault f st' \<Rightarrow> Some (Fault f st'))"

definition main :: "env \<Rightarrow> proc \<Rightarrow> outcome option" where
  "main e st = main_loop e (print_banner st)"


section \<open>Invariants and examples used in the statements\<close>

text \<open>
  The ring-buffer invariant after the entries \<open>es\<close> (non-empty lines, in order): the
  counter is their number, and each of the ten slots is either still empty, with no
  entry of that index yet, or holds the entry \<open>i\<close> among the last ten whose index is
  the slot's modulo ten.
\<close>

definition ring :: "string list \<Rightarrow> proc \<Rightarrow> bool" where
  "ring es st \<longleftrightarrow>
     history_count st = int (length es) \<and> length (history st) = HISTORY_SIZE \<and>
     (\<forall>j<HISTORY_SIZE.
        (length es \<le> j \<and> history st ! j = []) \<or>
        (\<exists>i<length es. length es \<le> i + HISTORY_SIZE \<and> i mod HISTORY_SIZE = j \<and>
           history st ! j = es ! i))"

text \<open>Twelve distinct commands, for the examples.\<close>

definition twelve :: "string list" where
  "twelve = [''c1'', ''c2'', ''c3'', ''c4'', ''c5'', ''c6'', ''c7'', ''c8'', ''c9'', ''c10'',
     ''c11'', ''c12'']"

text \<open>
  An environment for the examples, as the shell itself sees it: every \<^verbatim>\<open>fork\<close>
  returns the pid 1 of a child, and no program can be executed.
\<close>

definition parent_env :: env where
  "parent_env = \<lparr>fork_result = (\<lambda>k. 1), exec_ok = (\<lambda>p. False), uptime_result = (\<lambda>k. 0)\<rparr>"

text \<open>A line of 150 letters, longer than the command buffer, followed by the line \<^verbatim>\<open>ls\<close>.\<close>

definition long_input :: "char list" where
  "long_input = replicate 150 (CHR ''a'') @ newline # ''ls'' @ [newline]"

text \<open>
  The tokenizer as the specification words it, to compare \<^verbatim>\<open>parse\<close> with: the line is
  cut at every space into fields (\<open>join\<close> puts them together again), and the arguments
  are the fields that are not empty, in order: the maximal runs of characters other than
  the space.
\<close>

fun fields :: "string \<Rightarrow> string list" where
  "fields [] = [[]]"
| "fields (c # cs) =
     (if c = space then [] # fields cs
      else (case fields cs of [] \<Rightarrow> [[c]] | w # ws \<Rightarrow> (c # w) # ws))"

definition tokens :: "string \<Rightarrow> string list" where
  "tokens s = filter (\<lambda>w. w \<noteq> []) (fields s)"

fun join :: "string list \<Rightarrow> string" where
  "join [] = []"
| "join [w] = w"
| "join (w # v # ws) = w @ space # join (v # ws)"

text \<open>
  The view of a first child (every \<^verbatim>\<open>fork\<close> returns 0), and the view of the second child
  of a pipe (the first \<^verbatim>\<open>fork\<close> returns the pid 7, the second returns 0; only
  \<^verbatim>\<open>wc\<close> can be executed).
\<close>

definition child_env :: env where
  "child_env = \<lparr>fork_result = (\<lambda>k. 0), exec_ok = (\<lambda>p. False), uptime_result = (\<lambda>k. 0)\<rparr>"

definition second_child_env :: env where
  "second_child_env =
     \<lparr>fork_result = (\<lambda>k. if k = 0 then 7 else 0), exec_ok = (\<lambda>p. p = Some ''wc''),
      uptime_result = (\<lambda>k. 0)\<rparr>"

text \<open>
  A descriptor table of sixteen slots (\<^verbatim>\<open>NOFILE\<close> of xv6) with the console on 0, 1
  and 2.
\<close>

definition std_fds :: "openfile option list" where
  "std_fds = [Some (Inherited 0), Some (Inherited 1), Some (Inherited 2),
     None, None, None, None, None, None, None, None, None, None, None, None, None]"

text \<open>The farewell of the \<^verbatim>\<open>salir\<close> builtin, as an event.\<close>

definition farewell :: event where
  "farewell = EvPrintf [OStr (COLOR_WHITE @ nl @ ''Cerrando eafitos...'' @ nl @ COLOR_RESET)]"

section \<open>The history buffer: proofs\<close>

lemma slot_index:
  "int n smod int HISTORY_SIZE = int (n mod HISTORY_SIZE)"
  by (simp add: smod_mod_positive zmod_int)

lemma int32_id: "- (2 ^ 31) \<le> x \<Longrightarrow> x < 2 ^ 31 \<Longrightarrow> int32 x = x"
  by (simp add: int32_def mod_pos_pos_trivial)

lemma add_history_empty: "add_history [] st = Inr st"
  by (simp add: add_history_def)

lemma add_history_store:
  assumes "line \<noteq> []" "length line < MAXLINE" "0 \<le> history_count st" "history_count st < INT_MAX"
  shows "add_history line st =
     Inr (st\<lparr>history := (history st)[nat (history_count st) mod HISTORY_SIZE := line],
             history_count := history_count st + 1\<rparr>)"
proof -
  from assms(3) obtain n where n: "history_count st = int n"
    using nonneg_int_cases by blast
  have "int32 (history_count st + 1) = history_count st + 1"
    using assms(3,4) by (intro int32_id) (simp_all add: INT_MAX_def)
  then show ?thesis
    using assms by (simp add: add_history_def n slot_index)
qed

lemma records_append:
  "records (xs @ ys) st = (case records xs st of Inl f \<Rightarrow> Inl f | Inr st' \<Rightarrow> records ys st')"
  by (induction xs arbitrary: st) (auto split: sum.splits)

lemma records_entered: "records (entered ls) st = records ls st"
  by (induction ls arbitrary: st) (auto simp: entered_def add_history_empty split: sum.splits)

lemma ring_initial: "ring [] (initial input table)"
  by (simp add: ring_def initial_def)

lemma ring_step:
  assumes "ring es st" "l \<noteq> []" "length l < MAXLINE" "int (length es) < INT_MAX"
  shows "\<exists>st'. add_history l st = Inr st' \<and> ring (es @ [l]) st' \<and>
     inp st' = inp st \<and> fds st' = fds st \<and> trace st' = trace st \<and>
     npipes st' = npipes st \<and> ncalls st' = ncalls st"
proof -
  let ?n = "length es"
  let ?st' = "st\<lparr>history := (history st)[?n mod HISTORY_SIZE := l], history_count := int ?n + 1\<rparr>"
  from assms have cnt: "history_count st = int ?n" and len: "length (history st) = HISTORY_SIZE"
    by (simp_all add: ring_def)
  have eq: "add_history l st = Inr ?st'"
    using assms cnt by (simp add: add_history_store)
  have "ring (es @ [l]) ?st'"
    unfolding ring_def
  proof (intro conjI allI impI)
    fix j assume j: "j < HISTORY_SIZE"
    show "(length (es @ [l]) \<le> j \<and> history ?st' ! j = []) \<or>
        (\<exists>i<length (es @ [l]). length (es @ [l]) \<le> i + HISTORY_SIZE \<and> i mod HISTORY_SIZE = j \<and>
           history ?st' ! j = (es @ [l]) ! i)"
    proof (cases "j = ?n mod HISTORY_SIZE")
      case True
      then have "history ?st' ! j = l" using len j by simp
      then show ?thesis using True
        by (intro disjI2 exI[of _ ?n]) (simp add: HISTORY_SIZE_def)
    next
      case False
      then have same: "history ?st' ! j = history st ! j" by simp
      from assms(1) j have
        "(?n \<le> j \<and> history st ! j = []) \<or>
         (\<exists>i<?n. ?n \<le> i + HISTORY_SIZE \<and> i mod HISTORY_SIZE = j \<and> history st ! j = es ! i)"
        by (simp add: ring_def)
      then show ?thesis
      proof
        assume a: "?n \<le> j \<and> history st ! j = []"
        with j False have "?n \<noteq> j" by (auto simp: HISTORY_SIZE_def)
        with a same show ?thesis by simp
      next
        assume "\<exists>i<?n. ?n \<le> i + HISTORY_SIZE \<and> i mod HISTORY_SIZE = j \<and> history st ! j = es ! i"
        then obtain i where i: "i < ?n" "?n \<le> i + HISTORY_SIZE" "i mod HISTORY_SIZE = j"
          "history st ! j = es ! i" by blast
        from i False have "?n \<noteq> i + HISTORY_SIZE" by (auto simp: HISTORY_SIZE_def)
        with i same show ?thesis
          by (intro disjI2 exI[of _ i]) (simp add: nth_append)
      qed
    qed
  qed (simp_all add: len)
  with eq show ?thesis by (intro exI[of _ ?st']) simp
qed

lemma records_ring:
  assumes "\<forall>l\<in>set es. l \<noteq> [] \<and> length l < MAXLINE" "int (length es) \<le> INT_MAX" "ring [] st"
  shows "\<exists>st'. records es st = Inr st' \<and> ring es st' \<and>
     inp st' = inp st \<and> fds st' = fds st \<and> trace st' = trace st \<and>
     npipes st' = npipes st \<and> ncalls st' = ncalls st"
  using assms
proof (induction es rule: rev_induct)
  case Nil
  then show ?case by simp
next
  case (snoc l es)
  then obtain st1 where st1: "records es st = Inr st1" "ring es st1"
    "inp st1 = inp st" "fds st1 = fds st" "trace st1 = trace st"
    "npipes st1 = npipes st" "ncalls st1 = ncalls st"
    by auto
  from snoc.prems have "l \<noteq> []" "length l < MAXLINE" "int (length es) < INT_MAX" by auto
  from ring_step [OF st1(2) this] obtain st2 where
    "add_history l st1 = Inr st2" "ring (es @ [l]) st2"
    "inp st2 = inp st1" "fds st2 = fds st1" "trace st2 = trace st1"
    "npipes st2 = npipes st1" "ncalls st2 = ncalls st1" by blast
  with st1 show ?case by (simp add: records_append)
qed

lemma residues_close:
  assumes "k mod HISTORY_SIZE = i mod HISTORY_SIZE" "k \<le> i" "i < k + HISTORY_SIZE"
  shows "k = i"
proof (rule ccontr)
  assume "k \<noteq> i"
  with assms(2) have pos: "0 < i - k" by simp
  from assms(1,2) have "HISTORY_SIZE dvd i - k"
    by (metis mod_eq_dvd_iff_nat)
  with pos have "HISTORY_SIZE \<le> i - k" by (simp add: dvd_imp_le)
  with assms(2,3) show False by linarith
qed

lemma ring_window:
  assumes "ring es st" "i < length es" "length es \<le> i + HISTORY_SIZE"
  shows "history st ! (i mod HISTORY_SIZE) = es ! i"
proof -
  let ?j = "i mod HISTORY_SIZE"
  have j: "?j < HISTORY_SIZE" by (simp add: HISTORY_SIZE_def)
  have "\<not> length es \<le> ?j"
    using assms(2) mod_less_eq_dividend [of i HISTORY_SIZE] by linarith
  with assms(1) j obtain k where k: "k < length es" "length es \<le> k + HISTORY_SIZE"
    "k mod HISTORY_SIZE = ?j" "history st ! ?j = es ! k"
    unfolding ring_def by blast
  have "k = i"
    using residues_close [of k i] residues_close [of i k] k(1,2,3) assms(2,3)
    by (cases "k < i") (auto simp: not_less)
  with k show ?thesis by simp
qed

lemma show_history_loop_trace:
  "0 \<le> i \<Longrightarrow> show_history_loop i st =
     st\<lparr>trace := trace st @ map (\<lambda>k. history_line (int k) (history st ! (k mod HISTORY_SIZE)))
       [nat i..<nat (history_count st)]\<rparr>"
proof (induction i st rule: show_history_loop.induct)
  case (1 i st)
  from "1.prems" obtain n where n: "i = int n"
    using nonneg_int_cases by blast
  show ?case
  proof (cases "i < history_count st")
    case True
    then have lt: "n < nat (history_count st)" using n by simp
    from "1.IH" [OF True refl] "1.prems" True show ?thesis
      by (subst show_history_loop.simps)
        (simp add: n slot_index upt_conv_Cons [OF lt] nat_add_distrib Suc_nat_eq_nat_zadd1)
  next
    case False
    then show ?thesis by (subst show_history_loop.simps) simp
  qed
qed


lemma show_history_trace:
  assumes "0 \<le> history_count st" "history_count st \<le> INT_MAX"
  shows "show_history st =
      st\<lparr>trace := trace st
        @ [EvPrintf [OStr (COLOR_CYAN @ nl @ ''Ultimos comandos:'' @ nl @ COLOR_RESET)]]
        @ map (\<lambda>k. history_line (int k) (history st ! (k mod HISTORY_SIZE)))
            [nat (history_count st) - HISTORY_SIZE..<nat (history_count st)]
        @ [EvPrintf [OStr nl]]\<rparr>"
proof -
  have w: "int32 (history_count st - int HISTORY_SIZE) = history_count st - int HISTORY_SIZE"
    using assms by (intro int32_id) (simp_all add: HISTORY_SIZE_def INT_MAX_def)
  show ?thesis
  proof (cases "history_count st < int HISTORY_SIZE")
    case True
    then have "nat (history_count st) - HISTORY_SIZE = 0"
      by simp
    with True show ?thesis
      by (simp add: show_history_def Let_def printf_def w show_history_loop_trace)
  next
    case False
    then have "nat (history_count st - int HISTORY_SIZE) = nat (history_count st) - HISTORY_SIZE"
      by (simp add: nat_diff_distrib)
    with False show ?thesis
      by (simp add: show_history_def Let_def printf_def w show_history_loop_trace)
  qed
qed

text \<open>
  C1. \<^verbatim>\<open>add_history\<close> does nothing for the empty line. For a non-empty line that fits a
  command buffer it stores the line in slot \<open>history_count mod HISTORY_SIZE\<close>, changes
  no other slot and adds one to the counter. After any sequence of calls from the start,
  the counter is the number of non-empty lines entered, the entry with index \<open>i\<close>
  (counting from 0) is in slot \<open>i mod HISTORY_SIZE\<close> for each of the last ten, and every
  slot holds one of the last ten entries or is still empty: older entries are gone.
\<close>

theorem add_history_ring_buffer:
  assumes "\<forall>l\<in>set ls. length l < MAXLINE" and "int (length (entered ls)) \<le> INT_MAX"
    and "line \<noteq> []" and "length line < MAXLINE"
    and "0 \<le> history_count st" and "history_count st < INT_MAX"
    and "length (history st) = HISTORY_SIZE"
  shows "add_history [] st = Inr st \<and>
    add_history line st =
      Inr (st\<lparr>history := (history st)[nat (history_count st) mod HISTORY_SIZE := line],
              history_count := history_count st + 1\<rparr>) \<and>
    (history st)[nat (history_count st) mod HISTORY_SIZE := line]
      ! (nat (history_count st) mod HISTORY_SIZE) = line \<and>
    (\<exists>st'. records ls (initial input table) = Inr st' \<and>
       history_count st' = int (length (entered ls)) \<and>
       (\<forall>i<length (entered ls). length (entered ls) \<le> i + HISTORY_SIZE \<longrightarrow>
          history st' ! (i mod HISTORY_SIZE) = entered ls ! i) \<and>
       (\<forall>j<HISTORY_SIZE. history st' ! j = [] \<or>
          (\<exists>i<length (entered ls). length (entered ls) \<le> i + HISTORY_SIZE \<and>
             history st' ! j = entered ls ! i)))"
proof -
  have "\<forall>l\<in>set (entered ls). l \<noteq> [] \<and> length l < MAXLINE"
    using assms(1) by (simp add: entered_def)
  from records_ring [OF this assms(2) ring_initial] obtain st' where
    st': "records ls (initial input table) = Inr st'" "ring (entered ls) st'"
    by (auto simp: records_entered)
  have slots: "\<forall>j<HISTORY_SIZE. history st' ! j = [] \<or>
      (\<exists>i<length (entered ls). length (entered ls) \<le> i + HISTORY_SIZE \<and>
         history st' ! j = entered ls ! i)"
    using st'(2) unfolding ring_def by blast
  have stored: "(history st)[nat (history_count st) mod HISTORY_SIZE := line]
      ! (nat (history_count st) mod HISTORY_SIZE) = line"
    using assms(7) by (simp add: HISTORY_SIZE_def)
  from st' slots have "\<exists>st'. records ls (initial input table) = Inr st' \<and>
       history_count st' = int (length (entered ls)) \<and>
       (\<forall>i<length (entered ls). length (entered ls) \<le> i + HISTORY_SIZE \<longrightarrow>
          history st' ! (i mod HISTORY_SIZE) = entered ls ! i) \<and>
       (\<forall>j<HISTORY_SIZE. history st' ! j = [] \<or>
          (\<exists>i<length (entered ls). length (entered ls) \<le> i + HISTORY_SIZE \<and>
             history st' ! j = entered ls ! i))"
    by (intro exI [of _ st']) (simp add: ring_window ring_def)
  with stored show ?thesis
    using assms(3-6) by (simp add: add_history_empty add_history_store)
qed

text \<open>
  An instance of C1: thirteen entries (and an empty line, which does not count); the
  slots 0, 1 and 2 hold the last three, slot 3 the oldest one left.
\<close>

theorem add_history_ring_buffer_witness:
  "add_history [] (initial [] []) = Inr (initial [] []) \<and>
   add_history ''ls'' (initial [] []) =
     Inr ((initial [] [])\<lparr>history := (replicate 10 [])[0 := ''ls''], history_count := 1\<rparr>) \<and>
   (\<exists>st'. records (''c0'' # [] # twelve) (initial [] []) = Inr st' \<and>
      history_count st' = 13 \<and>
      history st' ! 0 = ''c10'' \<and> history st' ! 1 = ''c11'' \<and> history st' ! 2 = ''c12'' \<and>
      history st' ! 3 = ''c3'')"
proof -
  let ?ls = "''c0'' # [] # twelve"
  have len: "length (entered ?ls) = 13"
    by (simp add: entered_def twelve_def)
  have h1: "\<forall>l\<in>set ?ls. length l < MAXLINE"
    by (simp add: twelve_def MAXLINE_def)
  have h2: "int (length (entered ?ls)) \<le> INT_MAX"
    by (simp add: len INT_MAX_def)
  have h3: "''ls'' \<noteq> []" "length ''ls'' < MAXLINE"
    by (simp_all add: MAXLINE_def)
  have h4: "0 \<le> history_count (initial [] [])" "history_count (initial [] []) < INT_MAX"
    "length (history (initial [] [])) = HISTORY_SIZE"
    by (simp_all add: initial_def INT_MAX_def)
  from add_history_ring_buffer [OF h1 h2 h3 h4, of "[]" "[]"] obtain st' where
    one: "add_history [] (initial [] []) = Inr (initial [] [])"
      "add_history ''ls'' (initial [] []) =
        Inr ((initial [] [])\<lparr>history := (history (initial [] []))
               [nat (history_count (initial [] [])) mod HISTORY_SIZE := ''ls''],
             history_count := history_count (initial [] []) + 1\<rparr>)"
    and st': "records ?ls (initial [] []) = Inr st'" "history_count st' = int (length (entered ?ls))"
      "\<forall>i<length (entered ?ls). length (entered ?ls) \<le> i + HISTORY_SIZE \<longrightarrow>
          history st' ! (i mod HISTORY_SIZE) = entered ?ls ! i"
    by blast
  have "history st' ! (10 mod HISTORY_SIZE) = entered ?ls ! 10"
    "history st' ! (11 mod HISTORY_SIZE) = entered ?ls ! 11"
    "history st' ! (12 mod HISTORY_SIZE) = entered ?ls ! 12"
    "history st' ! (3 mod HISTORY_SIZE) = entered ?ls ! 3"
    using st'(3) [rule_format, of 10] st'(3) [rule_format, of 11]
      st'(3) [rule_format, of 12] st'(3) [rule_format, of 3]
    by (simp_all add: len HISTORY_SIZE_def)
  then have "history st' ! 0 = ''c10''" "history st' ! 1 = ''c11''" "history st' ! 2 = ''c12''"
    "history st' ! 3 = ''c3''"
    by (simp_all add: entered_def twelve_def HISTORY_SIZE_def)
  with one st'(1,2) show ?thesis
    by (intro conjI exI [of _ st']) (simp_all add: len initial_def HISTORY_SIZE_def)
qed

text \<open>
  C2. After any sequence of recorded lines, \<^verbatim>\<open>show_history\<close> prints the heading, then
  exactly the last \<open>min n HISTORY_SIZE\<close> of the \<open>n\<close> entries, oldest first, each after
  its number among all entries ever made (counting from 1), then an empty line.
\<close>

theorem show_history_last_entries:
  assumes "\<forall>l\<in>set ls. length l < MAXLINE" and "int (length (entered ls)) \<le> INT_MAX"
  shows "\<exists>st. records ls (initial input table) = Inr st \<and>
    show_history st =
      st\<lparr>trace := trace st
        @ [EvPrintf [OStr (COLOR_CYAN @ nl @ ''Ultimos comandos:'' @ nl @ COLOR_RESET)]]
        @ map (\<lambda>i. EvPrintf [OInt (int i + 1), OStr ''  '', OStr (entered ls ! i), OStr nl])
            [length (entered ls) - min (length (entered ls)) HISTORY_SIZE..<length (entered ls)]
        @ [EvPrintf [OStr nl]]\<rparr>"
proof -
  let ?n = "length (entered ls)"
  let ?lo = "?n - min ?n HISTORY_SIZE"
  have "\<forall>l\<in>set (entered ls). l \<noteq> [] \<and> length l < MAXLINE"
    using assms(1) by (simp add: entered_def)
  from records_ring [OF this assms(2) ring_initial] obtain st where
    st: "records ls (initial input table) = Inr st" "ring (entered ls) st"
    by (auto simp: records_entered)
  from st(2) have cnt: "history_count st = int ?n"
    by (simp add: ring_def)
  have lo: "?lo = nat (history_count st) - HISTORY_SIZE"
    by (simp add: cnt)
  have entries: "map (\<lambda>k. history_line (int k) (history st ! (k mod HISTORY_SIZE))) [?lo..<?n]
      = map (\<lambda>i. EvPrintf [OInt (int i + 1), OStr ''  '', OStr (entered ls ! i), OStr nl]) [?lo..<?n]"
  proof (rule map_cong [OF refl])
    fix k assume "k \<in> set [?lo..<?n]"
    then have "k < ?n" "?n \<le> k + HISTORY_SIZE"
      by (auto simp: min_def split: if_splits)
    from ring_window [OF st(2) this] show "history_line (int k) (history st ! (k mod HISTORY_SIZE))
        = EvPrintf [OInt (int k + 1), OStr ''  '', OStr (entered ls ! k), OStr nl]"
      by (simp add: history_line_def)
  qed
  have "show_history st =
      st\<lparr>trace := trace st
        @ [EvPrintf [OStr (COLOR_CYAN @ nl @ ''Ultimos comandos:'' @ nl @ COLOR_RESET)]]
        @ map (\<lambda>k. history_line (int k) (history st ! (k mod HISTORY_SIZE))) [?lo..<?n]
        @ [EvPrintf [OStr nl]]\<rparr>"
    unfolding lo using cnt assms(2) by (simp add: show_history_trace)
  with st(1) entries show ?thesis
    by auto
qed

text \<open>An instance of C2: after twelve commands the numbers 3 to 12 are shown.\<close>

theorem show_history_last_entries_witness:
  "\<exists>st. records twelve (initial [] []) = Inr st \<and>
    show_history st = st\<lparr>trace := trace st @
      [EvPrintf [OStr (COLOR_CYAN @ nl @ ''Ultimos comandos:'' @ nl @ COLOR_RESET)],
       EvPrintf [OInt 3, OStr ''  '', OStr ''c3'', OStr nl],
       EvPrintf [OInt 4, OStr ''  '', OStr ''c4'', OStr nl],
       EvPrintf [OInt 5, OStr ''  '', OStr ''c5'', OStr nl],
       EvPrintf [OInt 6, OStr ''  '', OStr ''c6'', OStr nl],
       EvPrintf [OInt 7, OStr ''  '', OStr ''c7'', OStr nl],
       EvPrintf [OInt 8, OStr ''  '', OStr ''c8'', OStr nl],
       EvPrintf [OInt 9, OStr ''  '', OStr ''c9'', OStr nl],
       EvPrintf [OInt 10, OStr ''  '', OStr ''c10'', OStr nl],
       EvPrintf [OInt 11, OStr ''  '', OStr ''c11'', OStr nl],
       EvPrintf [OInt 12, OStr ''  '', OStr ''c12'', OStr nl],
       EvPrintf [OStr nl]]\<rparr>"
proof -
  have ent: "entered twelve = twelve"
    by (simp add: entered_def twelve_def)
  have h1: "\<forall>l\<in>set twelve. length l < MAXLINE"
    by (simp add: twelve_def MAXLINE_def)
  have h2: "int (length (entered twelve)) \<le> INT_MAX"
    by (simp add: entered_def twelve_def INT_MAX_def)
  have range: "[length twelve - min (length twelve) HISTORY_SIZE..<length twelve]
      = [2, 3, 4, 5, 6, 7, 8, 9, 10, 11]"
    by (simp add: twelve_def HISTORY_SIZE_def upt_rec)
  from show_history_last_entries [OF h1 h2, of "[]" "[]"] obtain st where
    st: "records twelve (initial [] []) = Inr st"
    and shown: "show_history st =
      st\<lparr>trace := trace st
        @ [EvPrintf [OStr (COLOR_CYAN @ nl @ ''Ultimos comandos:'' @ nl @ COLOR_RESET)]]
        @ map (\<lambda>i. EvPrintf [OInt (int i + 1), OStr ''  '', OStr (twelve ! i), OStr nl])
            [length twelve - min (length twelve) HISTORY_SIZE..<length twelve]
        @ [EvPrintf [OStr nl]]\<rparr>"
    unfolding ent by blast
  show ?thesis
    by (intro exI [of _ st] conjI st) (simp add: shown range, simp add: twelve_def)
qed

section \<open>Reading a line: proofs\<close>

text \<open>
  What \<^verbatim>\<open>readline\<close> does with the input, in closed form: \<open>w\<close> is the input up to
  its first newline, \<open>r\<close> the room left in the buffer.
\<close>

lemma readline_loop_reads:
  "readline_loop lim i buf st =
     (let w = takeWhile (\<lambda>c. c \<noteq> newline) (inp st);
          r = lim - 1 - i;
          stored = take r w
      in (i + length stored, buf @ stored,
          st\<lparr>inp := (if length w < r then drop (length w + 1) (inp st) else drop r (inp st)),
             trace := trace st @ map (\<lambda>c. EvRead (Some c)) stored
               @ (if length w < r
                  then (if length w < length (inp st) then [EvRead (Some newline)] else [EvRead None])
                  else [])\<rparr>))"
proof (induction lim i buf st rule: readline_loop.induct)
  case (1 lim i buf st)
  show ?case
  proof (cases "i < lim - 1")
    case False
    then show ?thesis
      by (subst readline_loop.simps) simp
  next
    case True
    show ?thesis
    proof (cases "inp st")
      case Nil
      with True show ?thesis
        by (subst readline_loop.simps) (simp add: sys_read_def)
    next
      case (Cons c cs)
      show ?thesis
      proof (cases "c = newline")
        case True
        with \<open>i < lim - 1\<close> Cons show ?thesis
          by (subst readline_loop.simps) (simp add: sys_read_def)
      next
        case False
        let ?st' = "st\<lparr>inp := cs, trace := trace st @ [EvRead (Some c)]\<rparr>"
        have sr: "sys_read st = (Some c, ?st')"
          using Cons by (simp add: sys_read_def)
        obtain k where k: "lim - 1 - i = Suc k" "lim - 1 - (i + 1) = k"
          using True by (cases "lim - 1 - i") auto
        note IH = "1.IH" [OF True sr [symmetric] refl False]
        show ?thesis
          apply (subst readline_loop.simps)
          apply (simp only: True if_True sr prod.case option.case False if_False IH Let_def k)
          apply (simp add: Cons False)
          done
      qed
    qed
  qed
qed

lemma readline_reads:
  "readline lim st =
     (let w = takeWhile (\<lambda>c. c \<noteq> newline) (inp st);
          stored = take (lim - 1) w
      in (length stored, stored,
          st\<lparr>inp := (if length w < lim - 1 then drop (length w + 1) (inp st)
                     else drop (lim - 1) (inp st)),
             trace := trace st @ map (\<lambda>c. EvRead (Some c)) stored
               @ (if length w < lim - 1
                  then (if length w < length (inp st) then [EvRead (Some newline)] else [EvRead None])
                  else [])\<rparr>))"
  by (simp add: readline_def readline_loop_reads Let_def)

lemma takeWhile_drop:
  "k \<le> length (takeWhile P xs) \<Longrightarrow> takeWhile P (drop k xs) = drop k (takeWhile P xs)"
proof (induction xs arbitrary: k)
  case Nil
  then show ?case by simp
next
  case (Cons x xs)
  then show ?case by (cases k) (auto split: if_splits)
qed

lemma take_takeWhile:
  "k \<le> length (takeWhile P xs) \<Longrightarrow> take k (takeWhile P xs) = take k xs"
proof (induction xs arbitrary: k)
  case Nil
  then show ?case by simp
next
  case (Cons x xs)
  then show ?case by (cases k) (auto split: if_splits)
qed

text \<open>
  C9, as amended. \<^verbatim>\<open>readline\<close> stops at a newline (which it consumes), at the end of
  the input, or once \<open>MAXLINE - 1\<close> bytes are stored: the command line is the first
  \<open>MAXLINE - 1\<close> bytes of the input line at most. A longer line is cut there, and the
  bytes after the cut are not discarded: they stay in the input, and the next call
  returns them as the next command line.
\<close>

theorem readline_keeps_excess:
  "(let w = takeWhile (\<lambda>c. c \<noteq> newline) (inp st);
        (n, buf, st') = readline MAXLINE st
    in buf = take (MAXLINE - 1) w \<and> n = length buf \<and> length buf < MAXLINE \<and>
       inp st' = (if length w < MAXLINE - 1 then drop (length w + 1) (inp st)
                  else drop (MAXLINE - 1) (inp st)) \<and>
       (MAXLINE - 1 \<le> length w \<longrightarrow>
          buf @ inp st' = inp st \<and>
          fst (snd (readline MAXLINE st')) = take (MAXLINE - 1) (drop (MAXLINE - 1) w)))"
proof -
  let ?w = "takeWhile (\<lambda>c. c \<noteq> newline) (inp st)"
  have full: "take 99 ?w @ drop 99 (inp st) = inp st" if "99 \<le> length ?w"
    using take_takeWhile [OF that] by simp
  have twd: "takeWhile (\<lambda>c. c \<noteq> newline) (drop 99 (inp st)) = drop 99 ?w" if "99 \<le> length ?w"
    using takeWhile_drop [OF that] .
  show ?thesis
    by (simp add: readline_reads Let_def MAXLINE_def twd full)
qed

lemma takeWhile_replicate_newline:
  "x \<noteq> newline \<Longrightarrow> takeWhile (\<lambda>c. c \<noteq> newline) (replicate k x @ newline # ys) = replicate k x"
  by (induction k) auto

lemma a_not_newline: "CHR ''a'' \<noteq> newline"
  by (simp add: newline_def)

lemma excess_is_not_ls: "replicate 51 (CHR ''a'') \<noteq> ''ls''"
proof
  assume "replicate 51 (CHR ''a'') = ''ls''"
  then have "length (replicate 51 (CHR ''a'')) = length ''ls''"
    by (rule arg_cong)
  then show False
    by simp
qed

text \<open>
  C9 as stated fails on a line of 150 letters followed by the line \<^verbatim>\<open>ls\<close>: the first
  call stores 99 letters, the other 51 are still in the input, and the second call
  returns them, not \<^verbatim>\<open>ls\<close>.
\<close>

theorem readline_excess_counterexample:
  "fst (snd (readline MAXLINE (initial long_input []))) = replicate 99 (CHR ''a'') \<and>
   inp (snd (snd (readline MAXLINE (initial long_input [])))) =
     replicate 51 (CHR ''a'') @ newline # ''ls'' @ [newline] \<and>
   fst (snd (readline MAXLINE (snd (snd (readline MAXLINE (initial long_input [])))))) =
     replicate 51 (CHR ''a'') \<and>
   fst (snd (readline MAXLINE (snd (snd (readline MAXLINE (initial long_input [])))))) \<noteq> ''ls''"
  by (simp add: readline_reads Let_def long_input_def initial_def MAXLINE_def
      takeWhile_replicate_newline a_not_newline excess_is_not_ls)

text \<open>
  An instance of C9 as amended: a line of 100 letters is read as a command line of 99
  letters, and the next call returns the letter that was left.
\<close>

theorem readline_keeps_excess_witness:
  "fst (snd (readline MAXLINE (initial (replicate 100 (CHR ''a'') @ [newline]) []))) =
      replicate 99 (CHR ''a'') \<and>
   inp (snd (snd (readline MAXLINE (initial (replicate 100 (CHR ''a'') @ [newline]) [])))) =
      [CHR ''a'', newline] \<and>
   fst (snd (readline MAXLINE
     (snd (snd (readline MAXLINE (initial (replicate 100 (CHR ''a'') @ [newline]) [])))))) =
      [CHR ''a'']"
proof -
  let ?st = "initial (replicate 100 (CHR ''a'') @ [newline]) []"
  have w: "takeWhile (\<lambda>c. c \<noteq> newline) (inp ?st) = replicate 100 (CHR ''a'')"
    by (simp add: initial_def takeWhile_replicate_newline a_not_newline)
  obtain n buf st' where r: "readline MAXLINE ?st = (n, buf, st')"
    by (metis prod_cases3)
  from readline_keeps_excess [of ?st] show ?thesis
    unfolding Let_def w r by (simp add: MAXLINE_def initial_def)
qed

section \<open>End of input: proofs\<close>

lemma iteration_eof:
  assumes "inp st = []"
  shows "iteration e st = Continue (st\<lparr>trace := trace st @ [EvPrintf [OStr prompt], EvRead None]\<rparr>)"
  using assms by (simp add: iteration_def readline_reads Let_def printf_def MAXLINE_def)

lemma main_loop_eof:
  assumes "inp st = []"
  shows "main_loop e st = None"
proof (rule ccontr)
  assume "main_loop e st \<noteq> None"
  then obtain r where "main_loop e st = Some r"
    by auto
  then have "inp st \<noteq> []"
  proof (rule main_loop.raw_induct [where P = "\<lambda>e st r. inp st \<noteq> []", rotated])
    fix loop e st r
    assume IH: "\<And>e st r. loop e st = Some r \<Longrightarrow> inp st \<noteq> []"
      and eq: "(case iteration e st of
           Continue st' \<Rightarrow> loop e st'
         | Exited status st' \<Rightarrow> Some (Exited status st')
         | Replaced path argv st' \<Rightarrow> Some (Replaced path argv st')
         | Fault f st' \<Rightarrow> Some (Fault f st')) = Some r"
    show "inp st \<noteq> []"
    proof
      assume eof: "inp st = []"
      with eq have "loop e (st\<lparr>trace := trace st @ [EvPrintf [OStr prompt], EvRead None]\<rparr>) = Some r"
        by (simp add: iteration_eof)
      from IH [OF this] eof show False
        by simp
    qed
  qed
  with assms show False
    by simp
qed

text \<open>
  C8, as amended. Once the input is used up, a round of the loop prints the prompt, makes
  one read attempt that finds nothing, records and launches nothing, and goes on to the
  next round: the shell does not crash, but it does not stop reading either, and the loop
  never ends.
\<close>

theorem end_of_input_loops:
  assumes "inp st = []"
  shows "iteration e st =
      Continue (st\<lparr>trace := trace st @ [EvPrintf [OStr prompt], EvRead None]\<rparr>) \<and>
    main_loop e st = None"
  using assms by (simp add: iteration_eof main_loop_eof)

text \<open>An instance of C8 as amended: the shell on an empty input.\<close>

theorem end_of_input_loops_witness:
  "iteration parent_env (initial [] [Some (Inherited 0)]) =
      Continue ((initial [] [Some (Inherited 0)])\<lparr>trace := [EvPrintf [OStr prompt], EvRead None]\<rparr>) \<and>
   main_loop parent_env (initial [] [Some (Inherited 0)]) = None"
  using end_of_input_loops [of "initial [] [Some (Inherited 0)]" parent_env]
  by (simp add: initial_def)

text \<open>
  C8 as stated fails on the empty input: the second round makes a further read attempt,
  and the loop does not terminate.
\<close>

theorem end_of_input_counterexample:
  "iteration parent_env (initial [] []) =
     Continue ((initial [] [])\<lparr>trace := [EvPrintf [OStr prompt], EvRead None]\<rparr>) \<and>
   iteration parent_env ((initial [] [])\<lparr>trace := [EvPrintf [OStr prompt], EvRead None]\<rparr>) =
     Continue ((initial [] [])\<lparr>trace :=
       [EvPrintf [OStr prompt], EvRead None, EvPrintf [OStr prompt], EvRead None]\<rparr>) \<and>
   main_loop parent_env (initial [] []) = None"
  by (simp add: iteration_eof main_loop_eof initial_def)

section \<open>The tokenizer: proofs\<close>

lemma fields_not_empty: "fields s \<noteq> []"
  by (induction s) (auto split: list.splits)

lemma join_fields: "join (fields s) = s"
proof (induction s)
  case Nil
  then show ?case by simp
next
  case (Cons c cs)
  obtain w ws where f: "fields cs = w # ws"
    using fields_not_empty [of cs] by (cases "fields cs") auto
  with Cons show ?case
    by (cases ws) auto
qed

lemma fields_no_space: "w \<in> set (fields s) \<Longrightarrow> space \<notin> set w"
  by (induction s arbitrary: w) (auto split: if_splits list.splits)

lemma tokens_Nil: "tokens [] = []"
  by (simp add: tokens_def)

lemma tokens_space: "tokens (space # s) = tokens s"
  by (simp add: tokens_def)

lemma tokens_skip_spaces: "tokens (skip_spaces s) = tokens s"
  by (induction s) (auto simp: tokens_space)

lemma fields_word: "hd (fields s) = this_word s \<and> filter (\<lambda>w. w \<noteq> []) (tl (fields s)) = tokens (skip_word s)"
proof (induction s)
  case Nil
  then show ?case by (simp add: tokens_def)
next
  case (Cons c cs)
  obtain w ws where f: "fields cs = w # ws"
    using fields_not_empty [of cs] by (cases "fields cs") auto
  with Cons show ?case
    by (auto simp: tokens_def)
qed

lemma tokens_word:
  assumes "c \<noteq> space"
  shows "tokens (c # cs) = this_word (c # cs) # tokens (skip_word (c # cs))"
proof -
  obtain w ws where f: "fields cs = w # ws"
    using fields_not_empty [of cs] by (cases "fields cs") auto
  with fields_word [of cs] assms show ?thesis
    by (simp add: tokens_def)
qed

lemma skip_spaces_first: "skip_spaces s = c # cs \<Longrightarrow> c \<noteq> space"
  by (induction s) (auto split: if_splits)

lemma parse_loop_tokens:
  "length argv \<le> cap \<Longrightarrow>
   parse_loop cap buf argv =
     (if length argv + length (tokens buf) \<le> cap then Inr (argv @ tokens buf)
      else Inl ArgvOverflow)"
proof (induction cap buf argv rule: parse_loop.induct)
  case (1 cap buf argv)
  note fits = "1.prems"
  show ?case
  proof (cases "buf = []")
    case True
    with fits show ?thesis
      by (subst parse_loop.simps) (simp add: tokens_Nil)
  next
    case False
    show ?thesis
    proof (cases "skip_spaces buf")
      case Nil
      then have "tokens buf = []"
        using tokens_skip_spaces [of buf] by (simp add: tokens_Nil)
      with False Nil fits show ?thesis
        by (subst parse_loop.simps) simp
    next
      case (Cons c cs)
      then have c: "c \<noteq> space"
        by (rule skip_spaces_first)
      have t: "tokens buf = this_word (c # cs) # tokens (skip_word (c # cs))"
        using tokens_skip_spaces [of buf] tokens_word [OF c, of cs] Cons by simp
      show ?thesis
      proof (cases "cap \<le> length argv")
        case True
        with False Cons t show ?thesis
          by (subst parse_loop.simps) simp
      next
        case over: False
        have ne: "skip_spaces buf \<noteq> []"
          using Cons by simp
        from over have "length (argv @ [this_word (skip_spaces buf)]) \<le> cap"
          by simp
        from "1.IH" [OF False refl ne over this] False Cons t over show ?thesis
          by (subst parse_loop.simps) (simp add: Let_def)
      qed
    qed
  qed
qed

lemma parse_tokens:
  "parse cap buf = (if length (tokens buf) < cap then Inr (tokens buf) else Inl ArgvOverflow)"
  by (auto simp: parse_def parse_loop_tokens)

lemma tokens_example: "tokens ''a  b   c'' = [''a'', ''b'', ''c'']"
  by (simp add: tokens_def space_def)

lemma tokens_blank: "tokens ''   '' = []"
  by (simp add: tokens_def space_def)

text \<open>
  C3. Where the arguments and the sentinel fit the caller's array, \<^verbatim>\<open>parse\<close> yields
  exactly the maximal runs (\<open>parse_tokens\<close>). It has no bound of its own, though:
  on a line of ten arguments it fills the ten slots of \<^verbatim>\<open>char *argv[MAXARGS]\<close> and
  stores the sentinel past the end of the array.
\<close>

theorem parse_overflows_argv:
  "parse MAXARGS ''a b c d e f g h i j'' = Inl ArgvOverflow"
  by (simp add: parse_tokens tokens_def space_def MAXARGS_def)

lemma skip_spaces_dropWhile: "skip_spaces s = dropWhile (\<lambda>c. c = space) s"
  by (induction s) auto

lemma find_pipe_None: "find_pipe s = None \<longleftrightarrow> CHR ''|'' \<notin> set s"
  by (induction s) auto

lemma find_pipe_Some:
  "CHR ''|'' \<in> set s \<Longrightarrow> find_pipe s = Some (length (takeWhile (\<lambda>c. c \<noteq> CHR ''|'') s))"
  by (induction s) auto

lemma starts_with_prefix: "starts_with s p \<longleftrightarrow> take (length p) s = p"
  by (induction s p rule: starts_with.induct) auto

section \<open>The calculator: proofs\<close>

lemma tokens_nonempty: "w \<in> set (tokens s) \<Longrightarrow> w \<noteq> []"
  by (simp add: tokens_def)

lemma first_byte: "w \<noteq> [] \<Longrightarrow> (case w of [] \<Rightarrow> NUL | c # cs \<Rightarrow> c) = hd w"
  by (cases w) auto

lemma dispatch_calc: "dispatch e (''calc '' @ rest) st = calc rest st"
  by (simp add: dispatch_def)

lemma calc_tokens:
  assumes "length (tokens rest) < 4"
  shows "calc rest st =
     Continue
       (if length (tokens rest) < 3
        then printf [OStr (COLOR_RED @ ''Uso: calc n1 op n2'' @ nl @ COLOR_RESET)] st
        else
          let a = atoi (tokens rest ! 0);
              b = atoi (tokens rest ! 2);
              op = hd (tokens rest ! 1);
              st1 = printf [OStr (COLOR_YELLOW @ ''Resultado: '' @ COLOR_RESET)] st
          in if op = CHR ''+'' then printf [OInt (int32 (a + b)), OStr nl] st1
             else if op = CHR ''-'' then printf [OInt (int32 (a - b)), OStr nl] st1
             else if op = CHR ''*'' then printf [OInt (int32 (a * b)), OStr nl] st1
             else if op = CHR ''/'' \<and> b \<noteq> 0 then printf [OInt (int32 (a sdiv b)), OStr nl] st1
             else printf [OStr (COLOR_RED @ ''Operacion invalida'' @ nl @ COLOR_RESET)] st1)"
proof (cases "length (tokens rest) < 3")
  case True
  with assms show ?thesis
    by (auto simp: calc_def parse_tokens argp_def)
next
  case False
  with assms have "length (tokens rest) = Suc (Suc (Suc 0))"
    by simp
  then obtain x y z where xyz: "tokens rest = [x, y, z]"
    by (auto simp: length_Suc_conv)
  then have "y \<in> set (tokens rest)"
    by simp
  then have "y \<noteq> []"
    by (rule tokens_nonempty)
  then have "(case y of [] \<Rightarrow> NUL | c # cs \<Rightarrow> c) = hd y"
    by (rule first_byte)
  then show ?thesis
    by (simp add: calc_def parse_tokens argp_def Let_def xyz)
qed

text \<open>
  C4, as amended. A line that starts with \<^verbatim>\<open>"calc "\<close> goes to the calculator whatever
  follows, and the loop continues. With fewer than three arguments after the prefix the
  usage error is printed. With three, \<^verbatim>\<open>Resultado: \<close> is printed first; then
  \<^verbatim>\<open>+\<close>, \<^verbatim>\<open>-\<close> and \<^verbatim>\<open>*\<close> print the result in 32-bit arithmetic, \<^verbatim>\<open>/\<close>
  prints the quotient, truncated towards zero, when the second operand is not zero, and
  division by zero and every other operator character print one and the same
  \<^verbatim>\<open>Operacion invalida\<close>. (A fourth argument would be stored past the end of
  \<^verbatim>\<open>char *args[4]\<close>: see C3.)
\<close>
theorem calc_builtin:
  assumes "length (tokens rest) < 4"
  shows "\<exists>st'. dispatch e (''calc '' @ rest) st = Continue st' \<and>
    (length (tokens rest) < 3 \<longrightarrow>
       st' = printf [OStr (COLOR_RED @ ''Uso: calc n1 op n2'' @ nl @ COLOR_RESET)] st) \<and>
    (length (tokens rest) = 3 \<longrightarrow>
       (let a = atoi (tokens rest ! 0);
            b = atoi (tokens rest ! 2);
            op = hd (tokens rest ! 1);
            st1 = printf [OStr (COLOR_YELLOW @ ''Resultado: '' @ COLOR_RESET)] st
        in (op = CHR ''+'' \<longrightarrow> st' = printf [OInt (int32 (a + b)), OStr nl] st1) \<and>
           (op = CHR ''-'' \<longrightarrow> st' = printf [OInt (int32 (a - b)), OStr nl] st1) \<and>
           (op = CHR ''*'' \<longrightarrow> st' = printf [OInt (int32 (a * b)), OStr nl] st1) \<and>
           (op = CHR ''/'' \<and> b \<noteq> 0 \<longrightarrow> st' = printf [OInt (int32 (a sdiv b)), OStr nl] st1) \<and>
           (op = CHR ''/'' \<and> b = 0 \<or> op \<notin> {CHR ''+'', CHR ''-'', CHR ''*'', CHR ''/''} \<longrightarrow>
              st' = printf [OStr (COLOR_RED @ ''Operacion invalida'' @ nl @ COLOR_RESET)] st1)))"
  unfolding dispatch_calc using assms by (auto simp: calc_tokens Let_def)

text \<open>
  Instances of C4 as amended: a sum, a quotient, a division by zero and a missing operand.
\<close>

theorem calc_builtin_witness:
  "dispatch parent_env ''calc 4 + 5'' (initial [] []) =
     Continue (printf [OInt 9, OStr nl]
       (printf [OStr (COLOR_YELLOW @ ''Resultado: '' @ COLOR_RESET)] (initial [] []))) \<and>
   dispatch parent_env ''calc 7 / 2'' (initial [] []) =
     Continue (printf [OInt 3, OStr nl]
       (printf [OStr (COLOR_YELLOW @ ''Resultado: '' @ COLOR_RESET)] (initial [] []))) \<and>
   dispatch parent_env ''calc 4 / 0'' (initial [] []) =
     Continue (printf [OStr (COLOR_RED @ ''Operacion invalida'' @ nl @ COLOR_RESET)]
       (printf [OStr (COLOR_YELLOW @ ''Resultado: '' @ COLOR_RESET)] (initial [] []))) \<and>
   dispatch parent_env ''calc 4 +'' (initial [] []) =
     Continue (printf [OStr (COLOR_RED @ ''Uso: calc n1 op n2'' @ nl @ COLOR_RESET)] (initial [] []))"
proof -
  have t: "tokens ''4 + 5'' = [''4'', ''+'', ''5'']" "tokens ''7 / 2'' = [''7'', ''/'', ''2'']"
    "tokens ''4 / 0'' = [''4'', ''/'', ''0'']" "tokens ''4 +'' = [''4'', ''+'']"
    by (simp_all add: tokens_def space_def)
  have a: "atoi ''4'' = 4" "atoi ''5'' = 5" "atoi ''7'' = 7" "atoi ''2'' = 2" "atoi ''0'' = 0"
    by (simp_all add: atoi_def int32_def)
  have c: "''calc 4 + 5'' = ''calc '' @ ''4 + 5''" "''calc 7 / 2'' = ''calc '' @ ''7 / 2''"
    "''calc 4 / 0'' = ''calc '' @ ''4 / 0''" "''calc 4 +'' = ''calc '' @ ''4 +''"
    by simp_all
  show ?thesis
    unfolding c
    using calc_builtin [of "''4 + 5''" parent_env "initial [] []"]
      calc_builtin [of "''7 / 2''" parent_env "initial [] []"]
      calc_builtin [of "''4 / 0''" parent_env "initial [] []"]
      calc_builtin [of "''4 +''" parent_env "initial [] []"]
    unfolding t Let_def
    by (auto simp: a int32_def signed_divide_int_def simp del: append.simps)
qed

text \<open>
  C4 as stated fails: \<^verbatim>\<open>calc 4 / 0\<close> and \<^verbatim>\<open>calc 4 % 5\<close> end in the same state, with
  the same two messages printed; there is no arithmetic error of its own.
\<close>
theorem calc_errors_counterexample:
  "dispatch parent_env ''calc 4 / 0'' (initial [] []) =
     dispatch parent_env ''calc 4 % 5'' (initial [] []) \<and>
   dispatch parent_env ''calc 4 % 5'' (initial [] []) =
     Continue (printf [OStr (COLOR_RED @ ''Operacion invalida'' @ nl @ COLOR_RESET)]
       (printf [OStr (COLOR_YELLOW @ ''Resultado: '' @ COLOR_RESET)] (initial [] [])))"
proof -
  have t: "tokens ''4 / 0'' = [''4'', ''/'', ''0'']" "tokens ''4 % 5'' = [''4'', ''%'', ''5'']"
    by (simp_all add: tokens_def space_def)
  have a: "atoi ''0'' = 0"
    by (simp add: atoi_def int32_def)
  have "dispatch parent_env (''calc '' @ ''4 / 0'') (initial [] []) =
     Continue (printf [OStr (COLOR_RED @ ''Operacion invalida'' @ nl @ COLOR_RESET)]
       (printf [OStr (COLOR_YELLOW @ ''Resultado: '' @ COLOR_RESET)] (initial [] [])))"
    unfolding dispatch_calc by (simp add: calc_tokens t a)
  moreover have "dispatch parent_env (''calc '' @ ''4 % 5'') (initial [] []) =
     Continue (printf [OStr (COLOR_RED @ ''Operacion invalida'' @ nl @ COLOR_RESET)]
       (printf [OStr (COLOR_YELLOW @ ''Resultado: '' @ COLOR_RESET)] (initial [] [])))"
    unfolding dispatch_calc by (simp add: calc_tokens t)
  ultimately show ?thesis
    by simp
qed

section \<open>The pipe launcher: proofs\<close>

lemma first_free_Some:
  "first_free t = Some fd \<Longrightarrow> fd < length t \<and> t ! fd = None \<and> (\<forall>j<fd. t ! j \<noteq> None)"
proof (induction t arbitrary: fd rule: first_free.induct)
  case 1
  then show ?case by simp
next
  case (2 t)
  then show ?case by simp
next
  case (3 f t)
  then obtain k where k: "first_free t = Some k" "fd = Suc k"
    by auto
  from "3.IH" [OF k(1)] k(2) show ?case
    by (auto simp: less_Suc_eq_0_disj)
qed

lemma first_free_least:
  "fd < length t \<Longrightarrow> t ! fd = None \<Longrightarrow> (\<forall>j<fd. t ! j \<noteq> None) \<Longrightarrow> first_free t = Some fd"
proof (induction t arbitrary: fd rule: first_free.induct)
  case 1
  then show ?case by simp
next
  case (2 t)
  then show ?case by (cases fd) auto
next
  case (3 f t)
  then obtain k where k: "fd = Suc k"
    by (cases fd) auto
  with "3.prems" have "first_free t = Some k"
    by (intro "3.IH") auto
  with k show ?case by simp
qed

lemma sys_pipe_Some:
  assumes "sys_pipe st = (Some (r, w), st0)"
  shows "r < length (fds st) \<and> w < length (fds st) \<and> r \<noteq> w \<and>
    fds st ! r = None \<and> fds st ! w = None \<and> (\<forall>j<r. fds st ! j \<noteq> None) \<and>
    (\<forall>j<w. j \<noteq> r \<longrightarrow> fds st ! j \<noteq> None) \<and>
    st0 = st\<lparr>fds := (fds st)[r := Some (PipeRead (npipes st)), w := Some (PipeWrite (npipes st))],
             npipes := npipes st + 1, trace := trace st @ [EvPipe (Some (r, w))]\<rparr>"
proof -
  from assms obtain t1 where r: "first_free (fds st) = Some r"
    and t1: "t1 = (fds st)[r := Some (PipeRead (npipes st))]"
    and w: "first_free t1 = Some w"
    and st0: "st0 = st\<lparr>fds := t1[w := Some (PipeWrite (npipes st))],
             npipes := npipes st + 1, trace := trace st @ [EvPipe (Some (r, w))]\<rparr>"
    by (auto simp: sys_pipe_def fdalloc_def split: option.splits)
  note R = first_free_Some [OF r]
  note W = first_free_Some [OF w]
  from R W t1 have rw: "r \<noteq> w"
    by auto
  from W t1 rw have "fds st ! w = None" "w < length (fds st)"
    by auto
  moreover from W t1 have "\<forall>j<w. j \<noteq> r \<longrightarrow> fds st ! j \<noteq> None"
    by auto
  ultimately show ?thesis
    using R rw st0 t1 by simp
qed

lemma sys_dup_lowest:
  assumes "fd < length (fds st)" "fds st ! fd = Some f" "first_free (fds st) = Some n"
  shows "sys_dup fd st = st\<lparr>fds := (fds st)[n := Some f], trace := trace st @ [EvDup fd (Some n)]\<rparr>"
  using assms by (simp add: sys_dup_def fdalloc_def)

lemma table_redirected:
  assumes "xs ! r = None" "xs ! w = None" "r \<noteq> n" "w \<noteq> n"
  shows "xs[r := a, w := b, n := c, n := d, r := None, w := None] = xs[n := d]"
    and "xs[r := a, w := b, n := c, n := d, w := None, r := None] = xs[n := d]"
proof -
  have "xs[r := a, w := b, n := c, n := d, r := None, w := None] ! i = xs[n := d] ! i"
    and "xs[r := a, w := b, n := c, n := d, w := None, r := None] ! i = xs[n := d] ! i"
    if "i < length xs" for i
    using that assms by (cases "i = r"; cases "i = w"; cases "i = n"; simp)+
  then show "xs[r := a, w := b, n := c, n := d, r := None, w := None] = xs[n := d]"
    and "xs[r := a, w := b, n := c, n := d, w := None, r := None] = xs[n := d]"
    by (simp_all add: list_eq_iff_nth_eq)
qed

lemma table_restored:
  assumes "xs ! r = None" "xs ! w = None"
  shows "xs[r := a, w := b, r := None, w := None] = xs"
proof -
  have "xs[r := a, w := b, r := None, w := None] ! i = xs ! i" if "i < length xs" for i
    using that assms by (cases "i = r"; cases "i = w"; simp)
  then show ?thesis
    by (simp add: list_eq_iff_nth_eq)
qed

lemma run_pipe_child_a:
  assumes pipe: "sys_pipe st = (Some (r, w), st0)"
    and std: "1 < length (fds st)" "fds st ! 0 \<noteq> None" "fds st ! 1 \<noteq> None"
    and child: "fork_result e (ncalls st) = 0"
  shows "run_pipe e left right st =
    (let stA = st\<lparr>fds := (fds st)[1 := Some (PipeWrite (npipes st))],
                  npipes := npipes st + 1, ncalls := ncalls st + 1,
                  trace := trace st @ [EvPipe (Some (r, w)), EvFork 0, EvClose 1, EvDup w (Some 1),
                    EvClose r, EvClose w, EvExec (argp left 0) left]\<rparr>
     in if exec_ok e (argp left 0) then Replaced (argp left 0) left stA
        else Exited 1 (stA\<lparr>trace := trace stA @ [EvExit 1]\<rparr>))"
proof -
  let ?k = "npipes st"
  let ?t0 = "(fds st)[r := Some (PipeRead ?k), w := Some (PipeWrite ?k)]"
  note P = sys_pipe_Some [OF pipe]
  from P have rn: "fds st ! r = None" "fds st ! w = None"
    by auto
  have ne: "r \<noteq> 0" "r \<noteq> 1" "w \<noteq> 0" "w \<noteq> 1" "r \<noteq> w"
    using rn std P by metis+
  from P have len: "r < length (fds st)" "w < length (fds st)"
    by auto
  let ?s2 = "st\<lparr>fds := ?t0[1 := None], npipes := ?k + 1, ncalls := ncalls st + 1,
      trace := trace st @ [EvPipe (Some (r, w)), EvFork 0, EvClose 1]\<rparr>"
  have free: "first_free (fds ?s2) = Some 1"
    using std ne len by (intro first_free_least) (auto simp: nth_list_update)
  have dup: "sys_dup w ?s2 = ?s2\<lparr>fds := (fds ?s2)[1 := Some (PipeWrite ?k)],
      trace := trace ?s2 @ [EvDup w (Some 1)]\<rparr>"
    using ne len by (intro sys_dup_lowest free) (auto simp: nth_list_update)
  have table: "?t0[1 := None, 1 := Some (PipeWrite ?k), r := None, w := None]
      = (fds st)[1 := Some (PipeWrite ?k)]"
    using rn ne by (intro table_redirected)
  let ?s1 = "st\<lparr>fds := ?t0, npipes := ?k + 1, ncalls := ncalls st + 1,
      trace := trace st @ [EvPipe (Some (r, w)), EvFork 0]\<rparr>"
  have fork: "sys_fork e st0 = (0, ?s1)"
    using P child by (simp add: sys_fork_def Let_def)
  have c1: "sys_close 1 ?s1 = ?s2"
    by (simp add: sys_close_def)
  let ?s5 = "st\<lparr>fds := (fds st)[1 := Some (PipeWrite ?k)], npipes := ?k + 1,
      ncalls := ncalls st + 1,
      trace := trace st @ [EvPipe (Some (r, w)), EvFork 0, EvClose 1, EvDup w (Some 1),
        EvClose r, EvClose w]\<rparr>"
  have c2: "sys_close w (sys_close r (sys_dup w ?s2)) = ?s5"
    unfolding dup using table by (simp add: sys_close_def del: list_update.simps)
  show ?thesis
    by (simp only: run_pipe_def pipe Let_def fork prod.case option.case simp_thms if_True c1 c2)
      (simp add: sys_exec_def sys_exit_def Let_def)
qed

lemma run_pipe_child_b:
  assumes pipe: "sys_pipe st = (Some (r, w), st0)"
    and std: "1 < length (fds st)" "fds st ! 0 \<noteq> None" "fds st ! 1 \<noteq> None"
    and parent: "fork_result e (ncalls st) = pid1" "pid1 \<noteq> 0"
    and child: "fork_result e (ncalls st + 1) = 0"
  shows "run_pipe e left right st =
    (let stB = st\<lparr>fds := (fds st)[0 := Some (PipeRead (npipes st))],
                  npipes := npipes st + 1, ncalls := ncalls st + 2,
                  trace := trace st @ [EvPipe (Some (r, w)), EvFork pid1, EvFork 0, EvClose 0,
                    EvDup r (Some 0), EvClose w, EvClose r, EvExec (argp right 0) right]\<rparr>
     in if exec_ok e (argp right 0) then Replaced (argp right 0) right stB
        else Exited 1 (stB\<lparr>trace := trace stB @ [EvExit 1]\<rparr>))"
proof -
  let ?k = "npipes st"
  let ?t0 = "(fds st)[r := Some (PipeRead ?k), w := Some (PipeWrite ?k)]"
  note P = sys_pipe_Some [OF pipe]
  from P have rn: "fds st ! r = None" "fds st ! w = None"
    by auto
  have ne: "r \<noteq> 0" "r \<noteq> 1" "w \<noteq> 0" "w \<noteq> 1" "r \<noteq> w"
    using rn std P by metis+
  from P have len: "r < length (fds st)" "w < length (fds st)"
    by auto
  let ?s1 = "st\<lparr>fds := ?t0, npipes := ?k + 1, ncalls := ncalls st + 1,
      trace := trace st @ [EvPipe (Some (r, w)), EvFork pid1]\<rparr>"
  let ?s2 = "st\<lparr>fds := ?t0, npipes := ?k + 1, ncalls := ncalls st + 2,
      trace := trace st @ [EvPipe (Some (r, w)), EvFork pid1, EvFork 0]\<rparr>"
  let ?s3 = "st\<lparr>fds := ?t0[0 := None], npipes := ?k + 1, ncalls := ncalls st + 2,
      trace := trace st @ [EvPipe (Some (r, w)), EvFork pid1, EvFork 0, EvClose 0]\<rparr>"
  have fork1: "sys_fork e st0 = (pid1, ?s1)"
    using P parent by (simp add: sys_fork_def Let_def)
  have fork2: "sys_fork e ?s1 = (0, ?s2)"
    using child by (simp add: sys_fork_def Let_def)
  have c1: "sys_close 0 ?s2 = ?s3"
    by (simp add: sys_close_def)
  have pos: "0 < length (fds st)"
    using std(1) by linarith
  have free: "first_free (fds ?s3) = Some 0"
    using pos by (intro first_free_least) simp_all
  have dup: "sys_dup r ?s3 = ?s3\<lparr>fds := (fds ?s3)[0 := Some (PipeRead ?k)],
      trace := trace ?s3 @ [EvDup r (Some 0)]\<rparr>"
    using ne len by (intro sys_dup_lowest free) (auto simp: nth_list_update)
  have table: "?t0[0 := None, 0 := Some (PipeRead ?k), w := None, r := None]
      = (fds st)[0 := Some (PipeRead ?k)]"
    using rn ne by (intro table_redirected)
  let ?s6 = "st\<lparr>fds := (fds st)[0 := Some (PipeRead ?k)], npipes := ?k + 1,
      ncalls := ncalls st + 2,
      trace := trace st @ [EvPipe (Some (r, w)), EvFork pid1, EvFork 0, EvClose 0,
        EvDup r (Some 0), EvClose w, EvClose r]\<rparr>"
  have c2: "sys_close r (sys_close w (sys_dup r ?s3)) = ?s6"
    unfolding dup using table by (simp add: sys_close_def del: list_update.simps)
  show ?thesis
    using parent(2)
    by (simp only: run_pipe_def pipe Let_def fork1 fork2 prod.case option.case simp_thms
        if_True if_False c1 c2)
      (simp add: sys_exec_def sys_exit_def Let_def)
qed

lemma run_pipe_parent:
  assumes pipe: "sys_pipe st = (Some (r, w), st0)"
    and parent: "fork_result e (ncalls st) = pid1" "pid1 \<noteq> 0"
      "fork_result e (ncalls st + 1) = pid2" "pid2 \<noteq> 0"
  shows "run_pipe e left right st =
    Continue (st\<lparr>npipes := npipes st + 1, ncalls := ncalls st + 2,
                trace := trace st @ [EvPipe (Some (r, w)), EvFork pid1, EvFork pid2,
                  EvClose r, EvClose w, EvWait, EvWait]\<rparr>)"
proof -
  let ?k = "npipes st"
  let ?t0 = "(fds st)[r := Some (PipeRead ?k), w := Some (PipeWrite ?k)]"
  note P = sys_pipe_Some [OF pipe]
  let ?s1 = "st\<lparr>fds := ?t0, npipes := ?k + 1, ncalls := ncalls st + 1,
      trace := trace st @ [EvPipe (Some (r, w)), EvFork pid1]\<rparr>"
  let ?s2 = "st\<lparr>fds := ?t0, npipes := ?k + 1, ncalls := ncalls st + 2,
      trace := trace st @ [EvPipe (Some (r, w)), EvFork pid1, EvFork pid2]\<rparr>"
  have fork1: "sys_fork e st0 = (pid1, ?s1)"
    using P parent by (simp add: sys_fork_def Let_def)
  have fork2: "sys_fork e ?s1 = (pid2, ?s2)"
    using parent by (simp add: sys_fork_def Let_def)
  from P have rn: "fds st ! r = None" "fds st ! w = None"
    and len: "r < length (fds st)" "w < length (fds st)"
    by auto
  have table: "?t0[r := None, w := None] = fds st"
    using rn by (intro table_restored)
  have c: "sys_wait (sys_wait (sys_close w (sys_close r ?s2))) =
      st\<lparr>npipes := ?k + 1, ncalls := ncalls st + 2,
         trace := trace st @ [EvPipe (Some (r, w)), EvFork pid1, EvFork pid2,
           EvClose r, EvClose w, EvWait, EvWait]\<rparr>"
    using table by (simp add: sys_close_def sys_wait_def del: list_update.simps)
  show ?thesis
    using parent(2,4)
    by (simp only: run_pipe_def pipe Let_def fork1 fork2 prod.case option.case simp_thms
        if_True if_False c)
qed

lemma sys_pipe_std:
  "sys_pipe (initial input std_fds) =
     (Some (3, 4),
      (initial input std_fds)\<lparr>fds := std_fds[3 := Some (PipeRead 0), 4 := Some (PipeWrite 0)],
        npipes := 1, trace := [EvPipe (Some (3, 4))]\<rparr>)"
  by (simp add: sys_pipe_def fdalloc_def initial_def std_fds_def)

text \<open>
  C6. \<^verbatim>\<open>run_pipe\<close>, where \<^verbatim>\<open>pipe\<close> has succeeded and descriptors 0 and 1 are open,
  seen from each of the three processes. In the first child (\<^verbatim>\<open>fork\<close> returned 0):
  \<^verbatim>\<open>close(1)\<close>, \<^verbatim>\<open>dup\<close> of the write end, which lands on descriptor 1, both pipe
  descriptors closed, then \<^verbatim>\<open>exec\<close> of \<^verbatim>\<open>left[0]\<close>, and \<^verbatim>\<open>exit(1)\<close> if that fails.
  In the second child the same with descriptor 0 and the read end, and \<^verbatim>\<open>right[0]\<close>.
  In the parent: both \<^verbatim>\<open>fork\<close> calls, then both pipe descriptors closed (its table is
  as before the call), then the two \<^verbatim>\<open>wait(0)\<close> calls, which take the two children in
  whichever order they end.
\<close>
theorem run_pipe_protocol:
  assumes "sys_pipe st = (Some (r, w), st0)"
    and "1 < length (fds st)" and "fds st ! 0 \<noteq> None" and "fds st ! 1 \<noteq> None"
    and "fork_result e (ncalls st) = pid1" and "fork_result e (ncalls st + 1) = pid2"
  shows "r \<notin> {0, 1} \<and> w \<notin> {0, 1} \<and> r \<noteq> w \<and> fds st ! r = None \<and> fds st ! w = None \<and>
    (pid1 = 0 \<longrightarrow>
       run_pipe e left right st =
         (let stA = st\<lparr>fds := (fds st)[1 := Some (PipeWrite (npipes st))],
                      npipes := npipes st + 1, ncalls := ncalls st + 1,
                      trace := trace st @ [EvPipe (Some (r, w)), EvFork 0, EvClose 1,
                        EvDup w (Some 1), EvClose r, EvClose w, EvExec (argp left 0) left]\<rparr>
          in if exec_ok e (argp left 0) then Replaced (argp left 0) left stA
             else Exited 1 (stA\<lparr>trace := trace stA @ [EvExit 1]\<rparr>))) \<and>
    (pid1 \<noteq> 0 \<and> pid2 = 0 \<longrightarrow>
       run_pipe e left right st =
         (let stB = st\<lparr>fds := (fds st)[0 := Some (PipeRead (npipes st))],
                      npipes := npipes st + 1, ncalls := ncalls st + 2,
                      trace := trace st @ [EvPipe (Some (r, w)), EvFork pid1, EvFork 0, EvClose 0,
                        EvDup r (Some 0), EvClose w, EvClose r, EvExec (argp right 0) right]\<rparr>
          in if exec_ok e (argp right 0) then Replaced (argp right 0) right stB
             else Exited 1 (stB\<lparr>trace := trace stB @ [EvExit 1]\<rparr>))) \<and>
    (pid1 \<noteq> 0 \<and> pid2 \<noteq> 0 \<longrightarrow>
       run_pipe e left right st =
         Continue (st\<lparr>npipes := npipes st + 1, ncalls := ncalls st + 2,
           trace := trace st @ [EvPipe (Some (r, w)), EvFork pid1, EvFork pid2,
             EvClose r, EvClose w, EvWait, EvWait]\<rparr>))"
proof -
  note P = sys_pipe_Some [OF assms(1)]
  from P have rn: "fds st ! r = None" "fds st ! w = None" "r \<noteq> w"
    by auto
  have ne: "r \<noteq> 0" "r \<noteq> 1" "w \<noteq> 0" "w \<noteq> 1"
    using rn assms(3,4) by metis+
  have a: "pid1 = 0 \<longrightarrow> run_pipe e left right st =
         (let stA = st\<lparr>fds := (fds st)[1 := Some (PipeWrite (npipes st))],
                      npipes := npipes st + 1, ncalls := ncalls st + 1,
                      trace := trace st @ [EvPipe (Some (r, w)), EvFork 0, EvClose 1,
                        EvDup w (Some 1), EvClose r, EvClose w, EvExec (argp left 0) left]\<rparr>
          in if exec_ok e (argp left 0) then Replaced (argp left 0) left stA
             else Exited 1 (stA\<lparr>trace := trace stA @ [EvExit 1]\<rparr>))"
    using run_pipe_child_a [OF assms(1-4)] assms(5) by blast
  have b: "pid1 \<noteq> 0 \<and> pid2 = 0 \<longrightarrow> run_pipe e left right st =
         (let stB = st\<lparr>fds := (fds st)[0 := Some (PipeRead (npipes st))],
                      npipes := npipes st + 1, ncalls := ncalls st + 2,
                      trace := trace st @ [EvPipe (Some (r, w)), EvFork pid1, EvFork 0, EvClose 0,
                        EvDup r (Some 0), EvClose w, EvClose r, EvExec (argp right 0) right]\<rparr>
          in if exec_ok e (argp right 0) then Replaced (argp right 0) right stB
             else Exited 1 (stB\<lparr>trace := trace stB @ [EvExit 1]\<rparr>))"
    using run_pipe_child_b [OF assms(1-5)] assms(6) by blast
  have c: "pid1 \<noteq> 0 \<and> pid2 \<noteq> 0 \<longrightarrow> run_pipe e left right st =
         Continue (st\<lparr>npipes := npipes st + 1, ncalls := ncalls st + 2,
           trace := trace st @ [EvPipe (Some (r, w)), EvFork pid1, EvFork pid2,
             EvClose r, EvClose w, EvWait, EvWait]\<rparr>)"
    using run_pipe_parent [OF assms(1,5) _ assms(6)] by blast
  from rn ne a b c show ?thesis
    by blast
qed

text \<open>
  Instances of C6 on the console's table, where the pipe gets the descriptors 3 and 4: the
  first child (its \<^verbatim>\<open>exec\<close> fails), the second child (its \<^verbatim>\<open>exec\<close> succeeds) and the
  parent.
\<close>

theorem run_pipe_protocol_witness:
  "run_pipe child_env [''ls''] [''wc''] (initial [] std_fds) =
     Exited 1 ((initial [] std_fds)\<lparr>fds := std_fds[1 := Some (PipeWrite 0)], npipes := 1,
       ncalls := 1,
       trace := [EvPipe (Some (3, 4)), EvFork 0, EvClose 1, EvDup 4 (Some 1), EvClose 3,
         EvClose 4, EvExec (Some ''ls'') [''ls''], EvExit 1]\<rparr>) \<and>
   run_pipe second_child_env [''ls''] [''wc''] (initial [] std_fds) =
     Replaced (Some ''wc'') [''wc'']
       ((initial [] std_fds)\<lparr>fds := std_fds[0 := Some (PipeRead 0)], npipes := 1, ncalls := 2,
         trace := [EvPipe (Some (3, 4)), EvFork 7, EvFork 0, EvClose 0, EvDup 3 (Some 0),
           EvClose 4, EvClose 3, EvExec (Some ''wc'') [''wc'']]\<rparr>) \<and>
   run_pipe parent_env [''ls''] [''wc''] (initial [] std_fds) =
     Continue ((initial [] std_fds)\<lparr>npipes := 1, ncalls := 2,
       trace := [EvPipe (Some (3, 4)), EvFork 1, EvFork 1, EvClose 3, EvClose 4,
         EvWait, EvWait]\<rparr>)"
proof -
  have std: "1 < length (fds (initial [] std_fds))" "fds (initial [] std_fds) ! 0 \<noteq> None"
    "fds (initial [] std_fds) ! 1 \<noteq> None"
    by (simp_all add: initial_def std_fds_def)
  note W = run_pipe_protocol [OF sys_pipe_std std refl refl, of _ "[''ls'']" "[''wc'']"]
  from W [of child_env] W [of second_child_env] W [of parent_env] show ?thesis
    by (simp add: child_env_def second_child_env_def parent_env_def initial_def argp_def Let_def)
qed

section \<open>Blank lines: proofs\<close>

lemma readline_frame:
  "readline lim st = (n, buf, st1) \<Longrightarrow>
     n = length buf \<and> length buf \<le> lim - 1 \<and> newline \<notin> set buf \<and>
     history st1 = history st \<and> history_count st1 = history_count st \<and>
     fds st1 = fds st \<and> npipes st1 = npipes st \<and> ncalls st1 = ncalls st"
  by (auto simp: readline_reads Let_def dest: in_set_takeD set_takeWhileD)

lemma run_cmd_parent:
  assumes "fork_result e (ncalls st) = pid" "pid \<noteq> 0"
  shows "run_cmd e argv st =
     Continue (st\<lparr>ncalls := ncalls st + 1, trace := trace st @ [EvFork pid, EvWait]\<rparr>)"
  using assms by (simp add: run_cmd_def sys_fork_def sys_wait_def Let_def)

lemma run_cmd_child:
  assumes "fork_result e (ncalls st) = 0"
  shows "run_cmd e argv st =
     (if exec_ok e (argp argv 0)
      then Replaced (argp argv 0) argv
        (st\<lparr>ncalls := ncalls st + 1,
           trace := trace st @ [EvFork 0, EvExec (argp argv 0) argv]\<rparr>)
      else Exited 1
        (st\<lparr>ncalls := ncalls st + 1,
           trace := trace st @ [EvFork 0, EvExec (argp argv 0) argv,
             EvPrintf [OStr (COLOR_RED @ ''Error ejecutando comando'' @ nl @ COLOR_RESET)],
             EvExit 1]\<rparr>))"
  using assms
  by (simp add: run_cmd_def sys_fork_def sys_exec_def sys_exit_def printf_def Let_def)

lemma tokens_spaces: "tokens (replicate k space) = []"
  by (induction k) (simp_all add: tokens_Nil tokens_space)

lemma spaces_not_prefixed:
  assumes "0 < k" "p \<noteq> []" "hd p \<noteq> space"
  shows "\<not> starts_with (replicate k space) p" "replicate k space \<noteq> p"
proof -
  from assms obtain j where "k = Suc j"
    by (cases k) auto
  moreover from assms obtain c cs where "p = c # cs" "c \<noteq> space"
    by (cases p) auto
  ultimately show "\<not> starts_with (replicate k space) p" "replicate k space \<noteq> p"
    by auto
qed

lemma dispatch_spaces:
  assumes "0 < k"
  shows "dispatch e (replicate k space) st = run_cmd e [] st"
proof -
  have no: "replicate k space \<noteq> ''salir''" "replicate k space \<noteq> ''limpiar''"
    "replicate k space \<noteq> ''historial''" "replicate k space \<noteq> ''ayuda''"
    "replicate k space \<noteq> ''tiempo''" "replicate k space \<noteq> ''listar''"
    "\<not> starts_with (replicate k space) ''calc ''"
    "\<not> starts_with (replicate k space) ''leer ''"
    by (rule spaces_not_prefixed [OF assms]; simp add: space_def)+
  have "CHR ''|'' \<notin> set (replicate k space)"
    by (simp add: space_def)
  then have "find_pipe (replicate k space) = None"
    by (simp add: find_pipe_None)
  with no show ?thesis
    by (simp add: dispatch_def execute_def parse_tokens tokens_spaces MAXARGS_def)
qed

lemma cstr_id: "NUL \<notin> set buf \<Longrightarrow> cstr buf = buf"
  by (auto simp: cstr_def)

text \<open>
  C10. When the line read consists of \<open>k > 0\<close> spaces, the round records it in the
  history, finds no builtin and no pipe sign, and calls \<^verbatim>\<open>run_cmd\<close> with the empty
  argument vector, whose \<^verbatim>\<open>argv[0]\<close> is the null sentinel. In the shell (\<^verbatim>\<open>fork\<close>
  returned a pid) the round ends after \<^verbatim>\<open>wait(0)\<close> and the loop continues; in the child
  (\<^verbatim>\<open>fork\<close> returned 0), where \<^verbatim>\<open>exec\<close> of a null program name fails, the error
  message is printed and the child exits with status 1.
\<close>
theorem blank_line_runs_empty_command:
  assumes "readline MAXLINE (printf [OStr prompt] st) = (n, replicate k space, st1)"
    and "0 < k"
    and "0 \<le> history_count st" and "history_count st < INT_MAX"
    and "fork_result e (ncalls st) = pid"
  shows "\<exists>st2. add_history (replicate k space) st1 = Inr st2 \<and>
      history_count st2 = history_count st + 1 \<and>
      history st2 = (history st)[nat (history_count st) mod HISTORY_SIZE := replicate k space] \<and>
      trace st2 = trace st1 \<and>
      dispatch e (replicate k space) st2 = run_cmd e [] st2 \<and>
      iteration e st = run_cmd e [] st2 \<and>
      (pid \<noteq> 0 \<longrightarrow>
         iteration e st =
           Continue (st2\<lparr>ncalls := ncalls st + 1, trace := trace st2 @ [EvFork pid, EvWait]\<rparr>)) \<and>
      (pid = 0 \<and> \<not> exec_ok e None \<longrightarrow>
         iteration e st =
           Exited 1 (st2\<lparr>ncalls := ncalls st + 1,
             trace := trace st2 @ [EvFork 0, EvExec None [],
               EvPrintf [OStr (COLOR_RED @ ''Error ejecutando comando'' @ nl @ COLOR_RESET)],
               EvExit 1]\<rparr>))"
proof -
  let ?line = "replicate k space"
  let ?st2 = "st1\<lparr>history := (history st1)[nat (history_count st1) mod HISTORY_SIZE := ?line],
      history_count := history_count st1 + 1\<rparr>"
  note F = readline_frame [OF assms(1)]
  from F have fr: "history st1 = history st" "history_count st1 = history_count st"
    "ncalls st1 = ncalls st" and n: "n = k" and len: "k < MAXLINE"
    by (simp_all add: printf_def MAXLINE_def)
  have ne: "?line \<noteq> []"
    using assms(2) by simp
  have cs: "cstr ?line = ?line"
    by (rule cstr_id) (simp add: NUL_def space_def)
  have add: "add_history ?line st1 = Inr ?st2"
    using ne len assms(3,4) fr by (intro add_history_store) simp_all
  have it: "iteration e st = run_cmd e [] ?st2"
    using assms(2) ne
    by (simp add: iteration_def Let_def assms(1) n cs add dispatch_spaces)
  have fork: "fork_result e (ncalls ?st2) = pid"
    using assms(5) fr by simp
  have parent: "run_cmd e [] ?st2 =
      Continue (?st2\<lparr>ncalls := ncalls st + 1, trace := trace ?st2 @ [EvFork pid, EvWait]\<rparr>)"
    if "pid \<noteq> 0"
    using run_cmd_parent [OF fork that, of "[]"] fr by simp
  have child: "run_cmd e [] ?st2 =
      Exited 1 (?st2\<lparr>ncalls := ncalls st + 1,
        trace := trace ?st2 @ [EvFork 0, EvExec None [],
          EvPrintf [OStr (COLOR_RED @ ''Error ejecutando comando'' @ nl @ COLOR_RESET)],
          EvExit 1]\<rparr>)"
    if "pid = 0" "\<not> exec_ok e None"
    using run_cmd_child [of e ?st2 "[]"] fork that fr by (simp add: argp_def)
  show ?thesis
    using add it parent child fr assms(2)
    by (intro exI [of _ ?st2]) (simp add: dispatch_spaces)
qed

text \<open>Instances of C10: a line of three spaces, in the shell and in its child.\<close>

theorem blank_line_runs_empty_command_witness:
  "iteration parent_env (initial (''   '' @ nl) []) =
     Continue ((initial [] [])\<lparr>history := (replicate 10 [])[0 := ''   ''], history_count := 1,
       ncalls := 1,
       trace := [EvPrintf [OStr prompt], EvRead (Some space), EvRead (Some space),
         EvRead (Some space), EvRead (Some newline), EvFork 1, EvWait]\<rparr>) \<and>
   iteration child_env (initial (''   '' @ nl) []) =
     Exited 1 ((initial [] [])\<lparr>history := (replicate 10 [])[0 := ''   ''], history_count := 1,
       ncalls := 1,
       trace := [EvPrintf [OStr prompt], EvRead (Some space), EvRead (Some space),
         EvRead (Some space), EvRead (Some newline), EvFork 0, EvExec None [],
         EvPrintf [OStr (COLOR_RED @ ''Error ejecutando comando'' @ nl @ COLOR_RESET)],
         EvExit 1]\<rparr>)"
proof -
  let ?st = "initial (''   '' @ nl) []"
  let ?st1 = "(initial [] [])\<lparr>trace := [EvPrintf [OStr prompt], EvRead (Some space),
      EvRead (Some space), EvRead (Some space), EvRead (Some newline)]\<rparr>"
  have r: "readline MAXLINE (printf [OStr prompt] ?st) = (3, replicate 3 space, ?st1)"
    by (simp add: readline_reads Let_def printf_def initial_def nl_def space_def newline_def
        MAXLINE_def numeral_3_eq_3)
  have h: "0 \<le> history_count ?st" "history_count ?st < INT_MAX"
    by (simp_all add: initial_def INT_MAX_def)
  have p: "fork_result parent_env (ncalls ?st) = 1" and c: "fork_result child_env (ncalls ?st) = 0"
    and x: "\<not> exec_ok child_env None"
    by (simp_all add: parent_env_def child_env_def)
  from blank_line_runs_empty_command [OF r _ h p] blank_line_runs_empty_command [OF r _ h c] x
  show ?thesis
    by (auto simp: initial_def add_history_def HISTORY_SIZE_def MAXLINE_def INT_MAX_def
        numeral_3_eq_3 space_def)
qed

section \<open>The pipe sign: proofs\<close>

lemma pipe_line_no_builtin:
  assumes "CHR ''|'' \<in> set line"
  shows "line \<noteq> ''salir''" "line \<noteq> ''limpiar''" "line \<noteq> ''historial''" "line \<noteq> ''ayuda''"
    "line \<noteq> ''tiempo''" "line \<noteq> ''listar''"
  using assms by auto

lemma leer_keeps_pipe:
  assumes "CHR ''|'' \<in> set line" "starts_with line ''leer ''"
  shows "CHR ''|'' \<in> set (''cat '' @ drop 5 line)"
proof -
  from assms(2) have "take (length ''leer '') line = ''leer ''"
    by (simp only: starts_with_prefix)
  then have "line = ''leer '' @ drop (length ''leer '') line"
    by (metis append_take_drop_id)
  then have "set line = set ''leer '' \<union> set (drop (length ''leer '') line)"
    by (metis set_append)
  with assms(1) have "CHR ''|'' \<in> set (drop (length ''leer '') line)"
    by auto
  moreover have "length ''leer '' = 5"
    by simp
  ultimately show ?thesis
    by (simp only: set_append Un_iff simp_thms)
qed

lemma take_first_pipe:
  "take (length (takeWhile P s)) s = takeWhile P s"
  by (induction s) auto

text \<open>
  C5, as amended. For a line with a pipe sign that the calculator does not take, the
  buffer (the line, or \<^verbatim>\<open>"cat "\<close> and the rest for a line that starts with
  \<^verbatim>\<open>"leer "\<close>) is cut at the first pipe sign: the left command is the text before it,
  the right command the text after it without its leading spaces, later pipe signs
  included, and \<^verbatim>\<open>run_pipe\<close> gets the arguments of the two (where each side has fewer
  arguments than the \<open>MAXARGS\<close> slots of its array: see C3).
\<close>
theorem pipe_split:
  assumes "CHR ''|'' \<in> set line" and "\<not> starts_with line ''calc ''"
    and "buf = (if starts_with line ''leer '' then ''cat '' @ drop 5 line else line)"
    and "left = takeWhile (\<lambda>c. c \<noteq> CHR ''|'') buf"
    and "right = dropWhile (\<lambda>c. c = space) (drop (Suc (length left)) buf)"
    and "length (tokens left) < MAXARGS" and "length (tokens right) < MAXARGS"
  shows "dispatch e line st = run_pipe e (tokens left) (tokens right) st \<and>
    buf = left @ CHR ''|'' # drop (Suc (length left)) buf \<and> CHR ''|'' \<notin> set left"
proof -
  have pipe: "CHR ''|'' \<in> set buf"
    using assms(1,3) leer_keeps_pipe by auto
  then have fp: "find_pipe buf = Some (length left)"
    unfolding assms(4) by (rule find_pipe_Some)
  have l: "take (length left) buf = left"
    unfolding assms(4) by (rule take_first_pipe)
  have ex: "execute e line st = run_pipe e (tokens left) (tokens right) st"
    using pipe_line_no_builtin(6) [OF assms(1)] assms(6,7)
    by (simp add: execute_def Let_def assms(3) [symmetric] fp l parse_tokens
        skip_spaces_dropWhile assms(5) [symmetric])
  have "dispatch e line st = execute e line st"
    using pipe_line_no_builtin [OF assms(1)] assms(2) by (simp add: dispatch_def)
  moreover have "buf = left @ CHR ''|'' # drop (Suc (length left)) buf"
  proof -
    have "dropWhile (\<lambda>c. c \<noteq> CHR ''|'') buf \<noteq> []"
      using pipe by auto
    moreover have "hd (dropWhile (\<lambda>c. c \<noteq> CHR ''|'') buf) = CHR ''|''"
      using hd_dropWhile [OF calculation] by simp
    ultimately have "dropWhile (\<lambda>c. c \<noteq> CHR ''|'') buf = CHR ''|'' # drop (Suc (length left)) buf"
      unfolding assms(4) by (metis dropWhile_eq_drop drop_Suc hd_Cons_tl tl_drop)
    then show ?thesis
      unfolding assms(4) by (metis takeWhile_dropWhile_id)
  qed
  moreover have "CHR ''|'' \<notin> set left"
    unfolding assms(4) by (auto dest: set_takeWhileD)
  ultimately show ?thesis
    using ex by simp
qed

text \<open>
  Instances of C5 as amended: a second pipe sign stays an argument of the right command,
  and the alias is rewritten before the cut.
\<close>

theorem pipe_split_witness:
  "dispatch parent_env ''ls | wc | x'' (initial [] std_fds) =
     run_pipe parent_env [''ls''] [''wc'', ''|'', ''x''] (initial [] std_fds) \<and>
   dispatch parent_env ''leer f |  wc'' (initial [] std_fds) =
     run_pipe parent_env [''cat'', ''f''] [''wc''] (initial [] std_fds)"
proof -
  have a: "dispatch parent_env ''ls | wc | x'' (initial [] std_fds) =
     run_pipe parent_env [''ls''] [''wc'', ''|'', ''x''] (initial [] std_fds)"
    using pipe_split [of "''ls | wc | x''" _ _ _ parent_env "initial [] std_fds", OF _ _ refl refl refl]
    by (simp add: tokens_def space_def MAXARGS_def)
  have b: "dispatch parent_env ''leer f |  wc'' (initial [] std_fds) =
     run_pipe parent_env [''cat'', ''f''] [''wc''] (initial [] std_fds)"
    using pipe_split [of "''leer f |  wc''" _ _ _ parent_env "initial [] std_fds", OF _ _ refl refl refl]
    by (simp add: tokens_def space_def MAXARGS_def)
  from a b show ?thesis ..
qed

text \<open>
  C5 as stated fails on \<^verbatim>\<open>calc 1 | 2\<close>: the line has a pipe sign, but the calculator
  takes it (and rejects the operator \<^verbatim>\<open>|\<close>); no pipe is created.
\<close>
theorem pipe_split_counterexample:
  "CHR ''|'' \<in> set ''calc 1 | 2'' \<and>
   dispatch parent_env ''calc 1 | 2'' (initial [] std_fds) =
     Continue (printf [OStr (COLOR_RED @ ''Operacion invalida'' @ nl @ COLOR_RESET)]
       (printf [OStr (COLOR_YELLOW @ ''Resultado: '' @ COLOR_RESET)] (initial [] std_fds))) \<and>
   dispatch parent_env ''calc 1 | 2'' (initial [] std_fds) \<noteq>
     run_pipe parent_env [''calc'', ''1''] [''2''] (initial [] std_fds)"
proof -
  have t: "tokens ''1 | 2'' = [''1'', ''|'', ''2'']"
    by (simp add: tokens_def space_def)
  have d: "dispatch parent_env (''calc '' @ ''1 | 2'') (initial [] std_fds) =
     Continue (printf [OStr (COLOR_RED @ ''Operacion invalida'' @ nl @ COLOR_RESET)]
       (printf [OStr (COLOR_YELLOW @ ''Resultado: '' @ COLOR_RESET)] (initial [] std_fds)))"
    unfolding dispatch_calc by (simp add: calc_tokens t)
  have p: "run_pipe parent_env [''calc'', ''1''] [''2''] (initial [] std_fds) =
     Continue ((initial [] std_fds)\<lparr>npipes := 1, ncalls := 2,
       trace := [EvPipe (Some (3, 4)), EvFork 1, EvFork 1, EvClose 3, EvClose 4, EvWait, EvWait]\<rparr>)"
    using run_pipe_parent [OF sys_pipe_std, of parent_env "[]" 1 1]
    by (simp add: parent_env_def initial_def)
  from d p show ?thesis
    by (simp add: printf_def initial_def)
qed

section \<open>Leaving the shell: proofs\<close>

lemma calc_no_exit: "calc rest st \<noteq> Exited s st'"
  by (simp add: calc_def Let_def split: sum.splits)

lemma run_pipe_parent_no_exit:
  assumes "fork_result e (ncalls st) \<noteq> 0" "fork_result e (ncalls st + 1) \<noteq> 0"
  shows "run_pipe e left right st \<noteq> Exited s st'"
proof (cases "sys_pipe st")
  case (Pair p st0)
  show ?thesis
  proof (cases p)
    case None
    with Pair assms have "ncalls st0 = ncalls st"
      by (auto simp: sys_pipe_def split: option.splits prod.splits)
    with Pair None assms show ?thesis
      by (simp add: run_pipe_def sys_fork_def Let_def)
  next
    case (Some rw)
    obtain r w where "rw = (r, w)"
      by (cases rw)
    with Pair Some have "sys_pipe st = (Some (r, w), st0)"
      by simp
    from run_pipe_parent [OF this refl assms(1) refl assms(2)] show ?thesis
      by simp
  qed
qed

lemma run_cmd_parent_no_exit:
  assumes "fork_result e (ncalls st) \<noteq> 0"
  shows "run_cmd e argv st \<noteq> Exited s st'"
  using run_cmd_parent [OF refl assms] by simp

lemma execute_parent_no_exit:
  assumes "\<forall>k. fork_result e k \<noteq> 0"
  shows "execute e buf st \<noteq> Exited s st'"
  using assms
  by (simp add: execute_def Let_def run_cmd_parent_no_exit run_pipe_parent_no_exit
      split: option.split sum.split)

lemma dispatch_exit:
  assumes "\<forall>k. fork_result e k \<noteq> 0" "dispatch e buf st = Exited s st'"
  shows "buf = ''salir'' \<and> s = 0 \<and> st' = st\<lparr>trace := trace st @ [farewell, EvExit 0]\<rparr>"
  using assms(2) execute_parent_no_exit [OF assms(1)] calc_no_exit
  by (auto simp: dispatch_def sys_exit_def printf_def farewell_def split: if_splits)

lemma dispatch_salir:
  "dispatch e ''salir'' st = Exited 0 (st\<lparr>trace := trace st @ [farewell, EvExit 0]\<rparr>)"
  by (simp add: dispatch_def sys_exit_def printf_def farewell_def)

lemma iteration_exit:
  assumes "\<forall>k. fork_result e k \<noteq> 0" "iteration e st = Exited s st'"
  shows "s = 0 \<and> cstr (fst (snd (readline MAXLINE (printf [OStr prompt] st)))) = ''salir'' \<and>
    (\<exists>tr. trace st' = tr @ [farewell, EvExit 0])"
proof -
  obtain n buf st1 where r: "readline MAXLINE (printf [OStr prompt] st) = (n, buf, st1)"
    by (metis prod_cases3)
  from assms(2) obtain st2 where "dispatch e (cstr buf) st2 = Exited s st'"
    by (auto simp: iteration_def Let_def r split: if_splits sum.splits)
  from dispatch_exit [OF assms(1) this] show ?thesis
    by (simp add: r)
qed

lemma main_loop_exit:
  assumes "\<forall>k. fork_result e k \<noteq> 0" "main_loop e st = Some (Exited s st')"
  shows "s = 0 \<and> (\<exists>tr. trace st' = tr @ [farewell, EvExit 0])"
proof -
  let ?P = "\<lambda>e st r. (\<forall>k. fork_result e k \<noteq> 0) \<longrightarrow>
      (\<forall>s st'. r = Exited s st' \<longrightarrow> s = 0 \<and> (\<exists>tr. trace st' = tr @ [farewell, EvExit 0]))"
  from assms(2) have "?P e st (Exited s st')"
  proof (rule main_loop.raw_induct [where P = ?P, rotated])
    fix loop e st r
    assume IH: "\<And>e st r. loop e st = Some r \<Longrightarrow> ?P e st r"
      and eq: "(case iteration e st of
           Continue st' \<Rightarrow> loop e st'
         | Exited status st' \<Rightarrow> Some (Exited status st')
         | Replaced path argv st' \<Rightarrow> Some (Replaced path argv st')
         | Fault f st' \<Rightarrow> Some (Fault f st')) = Some r"
    show "?P e st r"
    proof (cases "iteration e st")
      case (Continue st1)
      with eq have "loop e st1 = Some r"
        by simp
      then show ?thesis
        by (rule IH)
    next
      case (Exited status st1)
      with eq have "r = Exited status st1"
        by simp
      with Exited iteration_exit [of e st status st1] show ?thesis
        by auto
    next
      case (Replaced path argv st1)
      with eq show ?thesis
        by auto
    next
      case (Fault f st1)
      with eq show ?thesis
        by auto
    qed
  qed
  with assms(1) show ?thesis
    by simp
qed

lemma first_free_exists: "i < length t \<Longrightarrow> t ! i = None \<Longrightarrow> first_free t \<noteq> None"
proof (induction t arbitrary: i rule: first_free.induct)
  case 1
  then show ?case by simp
next
  case (2 t)
  then show ?case by simp
next
  case (3 f t)
  then show ?case by (cases i) auto
qed

lemma sys_pipe_free:
  assumes "r < w" "w < length (fds st)" "fds st ! r = None" "fds st ! w = None"
  shows "\<exists>p q st0. sys_pipe st = (Some (p, q), st0)"
proof -
  from assms have "first_free (fds st) \<noteq> None"
    by (intro first_free_exists [of w]) simp_all
  then obtain p where p: "first_free (fds st) = Some p"
    by auto
  let ?t1 = "(fds st)[p := Some (PipeRead (npipes st))]"
  have "\<exists>i. i < length ?t1 \<and> ?t1 ! i = None"
  proof (cases "p = w")
    case True
    with assms show ?thesis
      by (intro exI [of _ r]) simp
  next
    case False
    with assms show ?thesis
      by (intro exI [of _ w]) simp
  qed
  then have "first_free ?t1 \<noteq> None"
    using first_free_exists by blast
  then obtain q where "first_free ?t1 = Some q"
    by auto
  with p show ?thesis
    by (simp add: sys_pipe_def fdalloc_def)
qed

lemma show_history_loop_frame:
  "inp (show_history_loop i st) = inp st \<and> fds (show_history_loop i st) = fds st \<and>
   history_count (show_history_loop i st) = history_count st"
proof (induction i st rule: show_history_loop.induct)
  case (1 i st)
  show ?case
  proof (cases "i < history_count st")
    case True
    with 1 [OF True refl] show ?thesis
      by (subst (1 2 3) show_history_loop.simps) (simp add: Let_def)
  next
    case False
    then show ?thesis
      by (subst (1 2 3) show_history_loop.simps) simp
  qed
qed

lemma show_history_frame:
  "inp (show_history st) = inp st \<and> fds (show_history st) = fds st \<and>
   history_count (show_history st) = history_count st"
  by (simp add: show_history_def Let_def show_history_loop_frame printf_def)

lemma ayuda_frame:
  "inp (ayuda st) = inp st \<and> fds (ayuda st) = fds st \<and> history_count (ayuda st) = history_count st"
  by (simp add: ayuda_def printf_def)

lemma tiempo_frame:
  "inp (tiempo e st) = inp st \<and> fds (tiempo e st) = fds st \<and>
   history_count (tiempo e st) = history_count st"
  by (simp add: tiempo_def Let_def sys_uptime_def print_two_digits_def printf_def)

lemma calc_parent:
  assumes "length (tokens rest) < 4"
  shows "\<exists>st'. calc rest st = Continue st' \<and> inp st' = inp st \<and> fds st' = fds st \<and>
    history_count st' = history_count st"
  unfolding calc_tokens [OF assms] by (simp add: Let_def printf_def)

lemma cat_keeps_pipe:
  assumes "CHR ''|'' \<in> set (if starts_with line ''leer '' then ''cat '' @ drop 5 line else line)"
  shows "CHR ''|'' \<in> set line"
  using assms by (auto split: if_splits dest: in_set_dropD)

lemma execute_listar: "execute e ''listar'' st = run_cmd e [''ls''] st"
  by (simp add: execute_def Let_def parse_tokens tokens_def space_def MAXARGS_def)

lemma execute_parent:
  assumes shell: "\<forall>k. fork_result e k \<noteq> 0"
    and cmd: "cmd = (if starts_with line ''leer '' then ''cat '' @ drop 5 line else line)"
    and left: "left = takeWhile (\<lambda>c. c \<noteq> CHR ''|'') cmd"
    and right: "right = drop (Suc (length left)) cmd"
    and fit: "length (tokens left) < MAXARGS" "length (tokens right) < MAXARGS"
    and free: "CHR ''|'' \<in> set line \<longrightarrow>
      (\<exists>r w. r < w \<and> w < length (fds st) \<and> fds st ! r = None \<and> fds st ! w = None)"
  shows "\<exists>st'. execute e line st = Continue st' \<and> inp st' = inp st \<and> fds st' = fds st \<and>
    history_count st' = history_count st"
proof (cases "CHR ''|'' \<in> set cmd")
  case True
  then have pl: "CHR ''|'' \<in> set line"
    unfolding cmd by (rule cat_keeps_pipe)
  then have nl: "line \<noteq> ''listar''"
    by auto
  from True have fp: "find_pipe cmd = Some (length left)"
    unfolding left by (rule find_pipe_Some)
  have l: "take (length left) cmd = left"
    unfolding left by (rule take_first_pipe)
  have r: "tokens (skip_spaces (drop (Suc (length left)) cmd)) = tokens right"
    unfolding right by (rule tokens_skip_spaces)
  have ex: "execute e line st = run_pipe e (tokens left) (tokens right) st"
    using nl fit
    by (simp add: execute_def Let_def cmd [symmetric] fp l parse_tokens r)
  from pl free obtain p q st0 where sp: "sys_pipe st = (Some (p, q), st0)"
    using sys_pipe_free by blast
  have f1: "fork_result e (ncalls st) \<noteq> 0" and f2: "fork_result e (ncalls st + 1) \<noteq> 0"
    using shell by simp_all
  show ?thesis
    unfolding ex run_pipe_parent [OF sp refl f1 refl f2] by simp
next
  case False
  then have fp: "find_pipe cmd = None"
    by (simp add: find_pipe_None)
  from False have "left = cmd"
    unfolding left by auto
  with fit have fc: "length (tokens cmd) < MAXARGS"
    by simp
  have f1: "fork_result e (ncalls st) \<noteq> 0"
    using shell by simp
  show ?thesis
  proof (cases "line = ''listar''")
    case True
    have "execute e line st = run_cmd e [''ls''] st"
      unfolding True by (rule execute_listar)
    then show ?thesis
      unfolding run_cmd_parent [OF refl f1] by simp
  next
    case False
    then have "execute e line st = run_cmd e (tokens cmd) st"
      using fc by (simp add: execute_def Let_def cmd [symmetric] fp parse_tokens)
    then show ?thesis
      unfolding run_cmd_parent [OF refl f1] by simp
  qed
qed

lemma length_calc: "length ''calc '' = 5"
  by simp

lemma dispatch_parent:
  assumes shell: "\<forall>k. fork_result e k \<noteq> 0"
    and other: "line \<noteq> ''salir''"
    and cmd: "cmd = (if starts_with line ''leer '' then ''cat '' @ drop 5 line else line)"
    and left: "left = takeWhile (\<lambda>c. c \<noteq> CHR ''|'') cmd"
    and right: "right = drop (Suc (length left)) cmd"
    and fit: "if starts_with line ''calc '' then length (tokens (drop 5 line)) < 4
      else length (tokens left) < MAXARGS \<and> length (tokens right) < MAXARGS \<and>
        (CHR ''|'' \<in> set line \<longrightarrow>
           (\<exists>r w. r < w \<and> w < length (fds st) \<and> fds st ! r = None \<and> fds st ! w = None))"
  shows "\<exists>st'. dispatch e line st = Continue st' \<and> inp st' = inp st \<and> fds st' = fds st \<and>
    history_count st' = history_count st"
proof -
  consider "line = ''limpiar''" | "line = ''historial''" | "line = ''ayuda''"
    | "starts_with line ''calc ''" | "line = ''tiempo''"
    | "line \<noteq> ''limpiar''" "line \<noteq> ''historial''" "line \<noteq> ''ayuda''"
      "\<not> starts_with line ''calc ''" "line \<noteq> ''tiempo''"
    by blast
  then show ?thesis
  proof cases
    case 1
    then show ?thesis
      by (simp add: dispatch_def clear_screen_def printf_def)
  next
    case 2
    then show ?thesis
      by (simp add: dispatch_def show_history_frame)
  next
    case 3
    then show ?thesis
      by (simp add: dispatch_def ayuda_frame)
  next
    case 4
    with fit have "length (tokens (drop 5 line)) < 4"
      by simp
    note c = calc_parent [OF this, of st]
    from 4 have "take (length ''calc '') line = ''calc ''"
      by (simp only: starts_with_prefix)
    then have "line = ''calc '' @ drop 5 line"
      by (metis append_take_drop_id length_calc)
    then have "dispatch e line st = calc (drop 5 line) st"
      by (metis dispatch_calc)
    with c show ?thesis
      by simp
  next
    case 5
    then show ?thesis
      by (simp add: dispatch_def tiempo_frame)
  next
    case 6
    with other have d: "dispatch e line st = execute e line st"
      by (simp add: dispatch_def)
    from 6 fit have "length (tokens left) < MAXARGS" "length (tokens right) < MAXARGS"
      "CHR ''|'' \<in> set line \<longrightarrow>
         (\<exists>r w. r < w \<and> w < length (fds st) \<and> fds st ! r = None \<and> fds st ! w = None)"
      by simp_all
    from execute_parent [OF shell cmd left right this] show ?thesis
      unfolding d .
  qed
qed

lemma main_loop_continue: "iteration e st = Continue st' \<Longrightarrow> main_loop e st = main_loop e st'"
  by (subst main_loop.simps) simp

lemma main_loop_exited:
  "iteration e st = Exited s st' \<Longrightarrow> main_loop e st = Some (Exited s st')"
  by (subst main_loop.simps) simp

lemma slot_nonneg: "0 \<le> x \<Longrightarrow> 0 \<le> x smod int HISTORY_SIZE"
  using slot_index [of "nat x"] by simp

lemma cstr_length: "length (cstr buf) \<le> length buf"
  by (simp add: cstr_def length_takeWhile_le)

lemma add_history_line:
  assumes "line \<noteq> []" "length line < MAXLINE" "0 \<le> history_count st"
  shows "add_history line st =
     Inr (st\<lparr>history := (history st)[nat (history_count st) mod HISTORY_SIZE := line],
             history_count := int32 (history_count st + 1)\<rparr>)"
proof -
  from assms(3) obtain k where k: "history_count st = int k"
    using nonneg_int_cases by blast
  show ?thesis
    using assms(1,2) by (simp add: add_history_def k slot_index)
qed

lemma readline_line:
  assumes "readline MAXLINE (printf [OStr prompt] st) = (n, buf, st1)"
  shows "n = length buf" "length (cstr buf) < MAXLINE" "history st1 = history st"
    "history_count st1 = history_count st" "fds st1 = fds st"
proof -
  note f = readline_frame [OF assms]
  from f show "n = length buf"
    by simp
  from f have "length buf < MAXLINE"
    by (simp add: MAXLINE_def)
  with cstr_length [of buf] show "length (cstr buf) < MAXLINE"
    by simp
  from f show "history st1 = history st" "history_count st1 = history_count st" "fds st1 = fds st"
    by (simp_all add: printf_def)
qed

lemma iteration_line:
  assumes "readline MAXLINE (printf [OStr prompt] st) = (n, buf, st1)"
    and "cstr buf \<noteq> []" and "0 \<le> history_count st"
  shows "iteration e st =
     dispatch e (cstr buf)
       (st1\<lparr>history := (history st)[nat (history_count st) mod HISTORY_SIZE := cstr buf],
            history_count := int32 (history_count st + 1)\<rparr>)"
proof -
  note r = readline_line [OF assms(1)]
  from assms(2) have "buf \<noteq> []"
    by (auto simp: cstr_def)
  with r(1) have n: "\<not> n \<le> 0"
    by simp
  have "add_history (cstr buf) st1 =
     Inr (st1\<lparr>history := (history st)[nat (history_count st) mod HISTORY_SIZE := cstr buf],
             history_count := int32 (history_count st + 1)\<rparr>)"
    using add_history_line [OF assms(2) r(2), of st1] assms(3) by (simp add: r)
  then show ?thesis
    using n assms(2) by (simp add: iteration_def Let_def assms(1))
qed

lemma iteration_empty:
  assumes "readline MAXLINE (printf [OStr prompt] st) = (n, buf, st1)" and "cstr buf = []"
  shows "iteration e st = Continue st1"
  using assms by (simp add: iteration_def Let_def)

lemma iteration_parent:
  assumes shell: "\<forall>k. fork_result e k \<noteq> 0"
    and r: "readline MAXLINE (printf [OStr prompt] st) = (n, buf, st1)"
    and line: "line = cstr buf"
    and cmd: "cmd = (if starts_with line ''leer '' then ''cat '' @ drop 5 line else line)"
    and left: "left = takeWhile (\<lambda>c. c \<noteq> CHR ''|'') cmd"
    and right: "right = drop (Suc (length left)) cmd"
    and count: "0 \<le> history_count st"
    and other: "line \<noteq> ''salir''"
    and fit: "if starts_with line ''calc '' then length (tokens (drop 5 line)) < 4
      else length (tokens left) < MAXARGS \<and> length (tokens right) < MAXARGS \<and>
        (CHR ''|'' \<in> set line \<longrightarrow>
           (\<exists>r w. r < w \<and> w < length (fds st) \<and> fds st ! r = None \<and> fds st ! w = None))"
  shows "\<exists>st'. iteration e st = Continue st' \<and> inp st' = inp st1 \<and> fds st' = fds st \<and>
    history_count st' = (if line = [] then history_count st else int32 (history_count st + 1))"
proof (cases "line = []")
  case True
  with iteration_empty [OF r] line readline_line [OF r] show ?thesis
    by simp
next
  case False
  let ?st2 = "st1\<lparr>history := (history st)[nat (history_count st) mod HISTORY_SIZE := line],
            history_count := int32 (history_count st + 1)\<rparr>"
  from False line have "cstr buf \<noteq> []"
    by simp
  from iteration_line [OF r this count] have it: "iteration e st = dispatch e line ?st2"
    by (simp only: line)
  have "fds ?st2 = fds st"
    using readline_line [OF r] by simp
  with fit have "if starts_with line ''calc '' then length (tokens (drop 5 line)) < 4
      else length (tokens left) < MAXARGS \<and> length (tokens right) < MAXARGS \<and>
        (CHR ''|'' \<in> set line \<longrightarrow>
           (\<exists>r w. r < w \<and> w < length (fds ?st2) \<and> fds ?st2 ! r = None \<and> fds ?st2 ! w = None))"
    by (simp only:)
  from dispatch_parent [OF shell other cmd left right this] obtain st'
    where "dispatch e line ?st2 = Continue st'" "inp st' = inp ?st2" "fds st' = fds ?st2"
      "history_count st' = history_count ?st2"
    by blast
  with it False readline_line [OF r] show ?thesis
    by simp
qed

lemma iteration_salir:
  assumes r: "readline MAXLINE (printf [OStr prompt] st) = (n, buf, st1)"
    and line: "cstr buf = ''salir''" and count: "0 \<le> history_count st"
  shows "iteration e st =
     Exited 0 (st1\<lparr>history := (history st)[nat (history_count st) mod HISTORY_SIZE := ''salir''],
       history_count := int32 (history_count st + 1),
       trace := trace st1 @ [farewell, EvExit 0]\<rparr>)"
proof -
  from line have "cstr buf \<noteq> []"
    by simp
  from iteration_line [OF r this count] show ?thesis
    unfolding line dispatch_salir by simp
qed

text \<open>
  C7. One round of the loop in the shell process (no \<^verbatim>\<open>fork\<close> returns 0 in it), where
  \<open>line\<close> is the command line read and the counter of the history is not negative.

  \<^item> On the line \<^verbatim>\<open>salir\<close> the round records the line, prints the farewell and calls
    \<^verbatim>\<open>exit(0)\<close>, and so does the loop.
  \<^item> On any other line the round ends without \<^verbatim>\<open>exit\<close> and the loop goes on from the
    state it leaves: whatever the line is (empty, a builtin, a calculator line with any
    operands, a command, a pipe), whatever \<^verbatim>\<open>fork\<close> returns to the shell (a pid, or -1
    on failure) and whatever becomes of the children. The input is consumed up to the end
    of the line, the descriptor table is as before the round, and the counter has gone up
    by one (for a line that is not empty). This holds where the behaviour of the round is
    defined: a calculator line has at most three arguments after \<^verbatim>\<open>calc\<close>, otherwise
    the text before the first pipe sign and the text after it have fewer than \<open>MAXARGS\<close>
    arguments each (see C3), and for a line with a pipe sign the table has two free
    descriptors, so that \<^verbatim>\<open>pipe\<close> succeeds (\<^verbatim>\<open>run_pipe\<close> does not look at its result).
  \<^item> Conversely, whenever the loop, a round or the dispatcher ends in \<^verbatim>\<open>exit\<close>, the status
    is 0, the line is exactly \<^verbatim>\<open>salir\<close> and the farewell was printed just before.
  \<^item> After \<^verbatim>\<open>fork\<close> the shell only calls \<^verbatim>\<open>wait(0)\<close>, which asks for no status, and
    goes on; a child whose \<^verbatim>\<open>exec\<close> fails prints the error and exits with status 1.
\<close>
theorem exit_discipline:
  assumes "\<forall>k. fork_result e k \<noteq> 0"
    and "readline MAXLINE (printf [OStr prompt] st) = (n, buf, st1)"
    and "line = cstr buf"
    and "cmd = (if starts_with line ''leer '' then ''cat '' @ drop 5 line else line)"
    and "left = takeWhile (\<lambda>c. c \<noteq> CHR ''|'') cmd"
    and "right = drop (Suc (length left)) cmd"
    and "bye = st1\<lparr>history := (history st)[nat (history_count st) mod HISTORY_SIZE := ''salir''],
      history_count := int32 (history_count st + 1),
      trace := trace st1 @ [farewell, EvExit 0]\<rparr>"
  shows "(0 \<le> history_count st \<and> line = ''salir'' \<longrightarrow>
       iteration e st = Exited 0 bye \<and> main_loop e st = Some (Exited 0 bye)) \<and>
    (0 \<le> history_count st \<and> line \<noteq> ''salir'' \<and>
     (if starts_with line ''calc '' then length (tokens (drop 5 line)) < 4
      else length (tokens left) < MAXARGS \<and> length (tokens right) < MAXARGS \<and>
        (CHR ''|'' \<in> set line \<longrightarrow>
           (\<exists>r w. r < w \<and> w < length (fds st) \<and> fds st ! r = None \<and> fds st ! w = None))) \<longrightarrow>
       (\<exists>st'. iteration e st = Continue st' \<and> main_loop e st = main_loop e st' \<and>
          inp st' = inp st1 \<and> fds st' = fds st \<and>
          history_count st' =
            (if line = [] then history_count st else int32 (history_count st + 1)))) \<and>
    (main_loop e st = Some (Exited s st') \<longrightarrow>
       s = 0 \<and> (\<exists>tr. trace st' = tr @ [farewell, EvExit 0])) \<and>
    (iteration e st = Exited s st' \<longrightarrow>
       s = 0 \<and> line = ''salir'' \<and> (\<exists>tr. trace st' = tr @ [farewell, EvExit 0])) \<and>
    (dispatch e l st = Exited s st' \<longrightarrow> l = ''salir'' \<and> s = 0) \<and>
    dispatch e ''salir'' st = Exited 0 (st\<lparr>trace := trace st @ [farewell, EvExit 0]\<rparr>) \<and>
    run_cmd e argv st =
      Continue (st\<lparr>ncalls := ncalls st + 1,
        trace := trace st @ [EvFork (fork_result e (ncalls st)), EvWait]\<rparr>) \<and>
    (fork_result c (ncalls st) = 0 \<and> \<not> exec_ok c (argp argv 0) \<longrightarrow>
       run_cmd c argv st =
         Exited 1 (st\<lparr>ncalls := ncalls st + 1,
           trace := trace st @ [EvFork 0, EvExec (argp argv 0) argv,
             EvPrintf [OStr (COLOR_RED @ ''Error ejecutando comando'' @ nl @ COLOR_RESET)],
             EvExit 1]\<rparr>))"
proof (intro conjI impI)
  assume a: "0 \<le> history_count st \<and> line = ''salir''"
  then have "cstr buf = ''salir''"
    using assms(3) by simp
  from iteration_salir [OF assms(2) this] a show it: "iteration e st = Exited 0 bye"
    by (simp only: assms(7))
  then show "main_loop e st = Some (Exited 0 bye)"
    by (rule main_loop_exited)
next
  assume a: "0 \<le> history_count st \<and> line \<noteq> ''salir'' \<and>
     (if starts_with line ''calc '' then length (tokens (drop 5 line)) < 4
      else length (tokens left) < MAXARGS \<and> length (tokens right) < MAXARGS \<and>
        (CHR ''|'' \<in> set line \<longrightarrow>
           (\<exists>r w. r < w \<and> w < length (fds st) \<and> fds st ! r = None \<and> fds st ! w = None)))"
  then have count: "0 \<le> history_count st" and other: "line \<noteq> ''salir''"
    and fit: "if starts_with line ''calc '' then length (tokens (drop 5 line)) < 4
      else length (tokens left) < MAXARGS \<and> length (tokens right) < MAXARGS \<and>
        (CHR ''|'' \<in> set line \<longrightarrow>
           (\<exists>r w. r < w \<and> w < length (fds st) \<and> fds st ! r = None \<and> fds st ! w = None))"
    by blast+
  from iteration_parent [OF assms(1-6) count other fit] obtain st'
    where st': "iteration e st = Continue st'" "inp st' = inp st1" "fds st' = fds st"
      "history_count st' = (if line = [] then history_count st else int32 (history_count st + 1))"
    by blast
  from st'(1) have "main_loop e st = main_loop e st'"
    by (rule main_loop_continue)
  with st' show "\<exists>st'. iteration e st = Continue st' \<and> main_loop e st = main_loop e st' \<and>
      inp st' = inp st1 \<and> fds st' = fds st \<and>
      history_count st' =
        (if line = [] then history_count st else int32 (history_count st + 1))"
    by blast
next
  assume "main_loop e st = Some (Exited s st')"
  from main_loop_exit [OF assms(1) this]
  show "s = 0" "\<exists>tr. trace st' = tr @ [farewell, EvExit 0]"
    by simp_all
next
  assume "iteration e st = Exited s st'"
  from iteration_exit [OF assms(1) this]
  show "s = 0" "line = ''salir''" "\<exists>tr. trace st' = tr @ [farewell, EvExit 0]"
    by (simp_all add: assms(2,3))
next
  assume "dispatch e l st = Exited s st'"
  from dispatch_exit [OF assms(1) this] show "l = ''salir''" "s = 0"
    by simp_all
next
  show "dispatch e ''salir'' st = Exited 0 (st\<lparr>trace := trace st @ [farewell, EvExit 0]\<rparr>)"
    by (rule dispatch_salir)
next
  have "fork_result e (ncalls st) \<noteq> 0"
    using assms(1) by simp
  from run_cmd_parent [OF refl this]
  show "run_cmd e argv st =
      Continue (st\<lparr>ncalls := ncalls st + 1,
        trace := trace st @ [EvFork (fork_result e (ncalls st)), EvWait]\<rparr>)" .
next
  assume "fork_result c (ncalls st) = 0 \<and> \<not> exec_ok c (argp argv 0)"
  then show "run_cmd c argv st =
         Exited 1 (st\<lparr>ncalls := ncalls st + 1,
           trace := trace st @ [EvFork 0, EvExec (argp argv 0) argv,
             EvPrintf [OStr (COLOR_RED @ ''Error ejecutando comando'' @ nl @ COLOR_RESET)],
             EvExit 1]\<rparr>)"
    by (simp add: run_cmd_child)
qed

text \<open>
  Instances of C7, in the shell on the console's table. The round on \<^verbatim>\<open>ls -l | wc\<close> ends
  without \<^verbatim>\<open>exit\<close> and leaves the line \<^verbatim>\<open>salir\<close> in the input, on which the loop then
  exits with status 0; the round on a division by zero goes on as well; the loop on
  \<^verbatim>\<open>salir\<close> alone; and \<^verbatim>\<open>run_cmd\<close> in the shell and in a child whose \<^verbatim>\<open>exec\<close> fails.
\<close>
theorem exit_discipline_witness:
  "(\<exists>st'. iteration parent_env (initial (''ls -l | wc'' @ nl @ ''salir'' @ nl) std_fds) = Continue st' \<and>
      main_loop parent_env (initial (''ls -l | wc'' @ nl @ ''salir'' @ nl) std_fds) =
        main_loop parent_env st' \<and>
      inp st' = ''salir'' @ nl \<and> fds st' = std_fds \<and> history_count st' = 1) \<and>
   (\<exists>st'. main_loop parent_env (initial (''ls -l | wc'' @ nl @ ''salir'' @ nl) std_fds) =
        Some (Exited 0 st') \<and>
      inp st' = [] \<and> history_count st' = 2) \<and>
   (\<exists>st'. iteration parent_env (initial (''calc 4 / 0'' @ nl) []) = Continue st' \<and>
      inp st' = [] \<and> history_count st' = 1) \<and>
   main_loop parent_env (initial (''salir'' @ nl) []) =
     Some (Exited 0 ((initial [] [])\<lparr>history := (replicate 10 [])[0 := ''salir''],
       history_count := 1,
       trace := [EvPrintf [OStr prompt], EvRead (Some CHR ''s''), EvRead (Some CHR ''a''),
         EvRead (Some CHR ''l''), EvRead (Some CHR ''i''), EvRead (Some CHR ''r''),
         EvRead (Some newline), farewell, EvExit 0]\<rparr>)) \<and>
   run_cmd parent_env [''ls''] (initial [] []) =
     Continue ((initial [] [])\<lparr>ncalls := 1, trace := [EvFork 1, EvWait]\<rparr>) \<and>
   run_cmd child_env [''ls''] (initial [] []) =
     Exited 1 ((initial [] [])\<lparr>ncalls := 1,
       trace := [EvFork 0, EvExec (Some ''ls'') [''ls''],
         EvPrintf [OStr (COLOR_RED @ ''Error ejecutando comando'' @ nl @ COLOR_RESET)],
         EvExit 1]\<rparr>)"
proof -
  have shell: "\<forall>k. fork_result parent_env k \<noteq> 0"
    by (simp add: parent_env_def)
  define W where "W = initial (''ls -l | wc'' @ nl @ ''salir'' @ nl) std_fds"
  have W: "inp W = ''ls -l | wc'' @ nl @ ''salir'' @ nl" "fds W = std_fds" "history_count W = 0"
    by (simp_all add: W_def initial_def)
  obtain n buf st1 where r: "readline MAXLINE (printf [OStr prompt] W) = (n, buf, st1)"
    by (metis prod_cases3)
  then have b: "buf = ''ls -l | wc''" "inp st1 = ''salir'' @ nl"
    by (auto simp: readline_reads Let_def printf_def W nl_def newline_def MAXLINE_def)
  have c: "cstr ''ls -l | wc'' = ''ls -l | wc''"
    by (simp add: cstr_def NUL_def)
  have free: "\<exists>r w. r < w \<and> w < length (fds W) \<and> fds W ! r = None \<and> fds W ! w = None"
    unfolding W by (intro exI [of _ 3] exI [of _ 4]) (simp add: std_fds_def)
  have fit: "length (tokens ''ls -l '') < MAXARGS" "length (tokens '' wc'') < MAXARGS"
    by (simp_all add: tokens_def space_def MAXARGS_def)
  note T = exit_discipline [OF shell r refl refl refl refl refl]
  from T [THEN conjunct2, THEN conjunct1] free fit
  have first: "\<exists>st'. iteration parent_env W = Continue st' \<and>
      main_loop parent_env W = main_loop parent_env st' \<and>
      inp st' = ''salir'' @ nl \<and> fds st' = std_fds \<and> history_count st' = 1"
    by (simp add: b c W int32_def)
  then obtain st' where st': "iteration parent_env W = Continue st'"
      "main_loop parent_env W = main_loop parent_env st'"
      "inp st' = ''salir'' @ nl" "fds st' = std_fds" "history_count st' = 1"
    by blast
  obtain n2 buf2 st2 where r2: "readline MAXLINE (printf [OStr prompt] st') = (n2, buf2, st2)"
    by (metis prod_cases3)
  then have b2: "buf2 = ''salir''" "inp st2 = []"
    by (auto simp: readline_reads Let_def printf_def st' nl_def newline_def MAXLINE_def)
  have c2: "cstr ''salir'' = ''salir''"
    by (simp add: cstr_def NUL_def)
  note T2 = exit_discipline [OF shell r2 refl refl refl refl refl]
  from T2 [THEN conjunct1]
  have second: "\<exists>st''. main_loop parent_env W = Some (Exited 0 st'') \<and>
      inp st'' = [] \<and> history_count st'' = 2"
    by (simp add: b2 c2 st' int32_def)
  define C where "C = initial (''calc 4 / 0'' @ nl) []"
  have C: "inp C = ''calc 4 / 0'' @ nl" "history_count C = 0"
    by (simp_all add: C_def initial_def)
  obtain n3 buf3 st3 where r3: "readline MAXLINE (printf [OStr prompt] C) = (n3, buf3, st3)"
    by (metis prod_cases3)
  then have b3: "buf3 = ''calc 4 / 0''" "inp st3 = []"
    by (auto simp: readline_reads Let_def printf_def C nl_def newline_def MAXLINE_def)
  have c3: "cstr ''calc 4 / 0'' = ''calc 4 / 0''"
    by (simp add: cstr_def NUL_def)
  have fit3: "length (tokens ''4 / 0'') < 4"
    by (simp add: tokens_def space_def)
  note T3 = exit_discipline [OF shell r3 refl refl refl refl refl]
  from T3 [THEN conjunct2, THEN conjunct1] fit3
  have third: "\<exists>st'. iteration parent_env C = Continue st' \<and> inp st' = [] \<and> history_count st' = 1"
    by (auto simp: b3 c3 C int32_def)
  define S where "S = initial (''salir'' @ nl) []"
  have r4: "readline MAXLINE (printf [OStr prompt] S) =
      (5, ''salir'', S\<lparr>inp := [], trace := [EvPrintf [OStr prompt], EvRead (Some CHR ''s''),
         EvRead (Some CHR ''a''), EvRead (Some CHR ''l''), EvRead (Some CHR ''i''),
         EvRead (Some CHR ''r''), EvRead (Some newline)]\<rparr>)"
    by (simp add: readline_reads Let_def printf_def S_def initial_def nl_def newline_def MAXLINE_def)
  note T4 = exit_discipline [OF shell r4 refl refl refl refl refl]
  from T4 [THEN conjunct1]
  have fourth: "main_loop parent_env S =
     Some (Exited 0 ((initial [] [])\<lparr>history := (replicate 10 [])[0 := ''salir''],
       history_count := 1,
       trace := [EvPrintf [OStr prompt], EvRead (Some CHR ''s''), EvRead (Some CHR ''a''),
         EvRead (Some CHR ''l''), EvRead (Some CHR ''i''), EvRead (Some CHR ''r''),
         EvRead (Some newline), farewell, EvExit 0]\<rparr>))"
    by (simp add: c2 S_def initial_def int32_def HISTORY_SIZE_def)
  obtain n5 buf5 st5
    where r5: "readline MAXLINE (printf [OStr prompt] (initial [] [])) = (n5, buf5, st5)"
    by (metis prod_cases3)
  note T5 = exit_discipline [where argv = "[''ls'']" and c = child_env,
      OF shell r5 refl refl refl refl refl]
  from T5 have fifth: "run_cmd parent_env [''ls''] (initial [] []) =
     Continue ((initial [] [])\<lparr>ncalls := 1, trace := [EvFork 1, EvWait]\<rparr>)"
    "run_cmd child_env [''ls''] (initial [] []) =
     Exited 1 ((initial [] [])\<lparr>ncalls := 1,
       trace := [EvFork 0, EvExec (Some ''ls'') [''ls''],
         EvPrintf [OStr (COLOR_RED @ ''Error ejecutando comando'' @ nl @ COLOR_RESET)],
         EvExit 1]\<rparr>)"
    by (simp_all add: parent_env_def child_env_def initial_def argp_def)
  from first second third fourth fifth show ?thesis
    unfolding W_def C_def S_def by (intro conjI)
qed

end
